theory Spec2Isabelle
  imports Complex_Main "HOL-Library.Product_Lexorder" "HOL-Library.List_Lexorder" "HOL-Library.Char_ord"
begin

section \<open>Values, errors and the Python runtime\<close>

text \<open>
  A cell of the data frame is a value or one of the two nulls pandas knows: the float
  \<open>nan\<close> and Python's \<open>None\<close>. \<open>pd.isna\<close> is true of both; under Python's
  \<open>==\<close> a \<open>nan\<close> equals nothing (itself included) and \<open>None\<close> equals \<open>None\<close>.
\<close>

datatype 'v cell = NaN | PyNone | Val 'v

fun isna :: "'v cell \<Rightarrow> bool" where
  "isna NaN = True"
| "isna PyNone = True"
| "isna (Val v) = False"

fun cell_eq :: "'v cell \<Rightarrow> 'v cell \<Rightarrow> bool" where
  "cell_eq (Val a) (Val b) = (a = b)"
| "cell_eq PyNone PyNone = True"
| "cell_eq a b = False"

text \<open>
  The messages of the \<open>ValueError\<close>s that \<open>matching.py\<close> raises:
  \<^item> \<open>SamebyAnyOne\<close>: 'sameby: any should have more than one column'
  \<^item> \<open>DiffbyAnyOne\<close>: 'diffby: any should have more than one column'
  \<^item> \<open>NotDisjoint\<close>: 'sameby and diffby must be disjoint lists'
  \<^item> \<open>NoColumns\<close>: 'sameby, diffby: at least one column should be provided'
  \<^item> \<open>MissingColumns\<close>: 'sameby, diffby: {missing} columns not in DataFrame'
  \<^item> \<open>TriesExhausted\<close>: 'Number of tries exhusted. Could not find a valid pair'
  \<^item> \<open>BadFieldNames\<close>: the message of \<open>collections.namedtuple\<close> for field names it refuses.
\<close>

datatype message =
    SamebyAnyOne | DiffbyAnyOne | NotDisjoint | NoColumns | MissingColumns "string list"
  | TriesExhausted | BadFieldNames

text \<open>
  Every exception of the source is a value. \<open>UnpairedException\<close> is the class the module
  declares; the others are Python's built-in classes.
\<close>

datatype error =
    ValueError message | KeyError | IndexError | TypeError | StopIteration
  | UnpairedException int

text \<open>
  Sets of row identifiers are lists without repetition. Python leaves the order in which
  a set is iterated open (CPython iterates \<open>{1, 8}\<close> as 8, 1), so every iteration
  of a set goes through \<open>set_iter\<close> of the runtime. The runtime also holds the other
  library behaviour the module relies on and does not define: numpy's seeded bit
  generator (the stream of words \<open>default_rng seed\<close>), whether
  \<open>collections.namedtuple\<close> accepts a list of field names, and numpy's \<open>in\<close> on an
  array of pairs.
\<close>

record runtime =
  set_iter :: "nat list \<Rightarrow> nat list"
  default_rng :: "int \<Rightarrow> nat \<Rightarrow> nat"
  namedtuple_ok :: "string list \<Rightarrow> bool"
  array_contains :: "(nat \<times> nat) list \<Rightarrow> (nat \<times> nat) list \<Rightarrow> error + bool"

definition iter_ok :: "runtime \<Rightarrow> bool" where
  "iter_ok rt = (\<forall>xs. set (set_iter rt xs) = set xs \<and> distinct (set_iter rt xs))"

text \<open>Set difference, intersection of a non-empty family, and \<open>set(xs)\<close>.\<close>

definition set_diff :: "nat list \<Rightarrow> nat list \<Rightarrow> nat list" where
  "set_diff xs ys = filter (\<lambda>x. x \<notin> set ys) xs"

fun set_intersection :: "nat list \<Rightarrow> nat list list \<Rightarrow> nat list" where
  "set_intersection s [] = s"
| "set_intersection s (t # ts) = set_intersection (filter (\<lambda>x. x \<in> set t) s) ts"

subsection \<open>The random generator\<close>

text \<open>
  numpy's \<open>Generator\<close>: a stream of words and the position reached. A double of
  \<open>uniform\<close> is \<open>k / 2 ^ 53\<close> for a \<open>k\<close> below \<open>2 ^ 53\<close> that the generator
  makes of one word; the model keeps \<open>k\<close>, the numerator. \<open>uniform(size=n)\<close> takes
  the next \<open>n\<close> words, and \<open>choice(elems, k)\<close> (with its default \<open>replace=True\<close>)
  draws \<open>k\<close> positions of \<open>elems\<close> independently, one word each.
\<close>

record rng_state =
  tape :: "nat \<Rightarrow> nat"
  pos :: nat

definition next_double :: "nat \<Rightarrow> nat" where
  "next_double w = w mod 2 ^ 53"

definition rng_uniform :: "rng_state \<Rightarrow> nat \<Rightarrow> nat list \<times> rng_state" where
  "rng_uniform g n =
     (map (\<lambda>i. next_double (tape g i)) [pos g ..< pos g + n], g\<lparr>pos := pos g + n\<rparr>)"

definition rng_choice :: "rng_state \<Rightarrow> nat list \<Rightarrow> nat \<Rightarrow> nat list \<times> rng_state" where
  "rng_choice g elems k =
     (map (\<lambda>i. elems ! (tape g i mod length elems)) [pos g ..< pos g + k], g\<lparr>pos := pos g + k\<rparr>)"

section \<open>Data frames and the reverse index\<close>

text \<open>
  A data frame with the default index \<open>0..N-1\<close>: the column names and the rows, every
  row with one cell per column.
\<close>

record 'v dframe =
  col_names :: "string list"
  df_rows :: "'v cell list list"

definition wf_dframe :: "'v dframe \<Rightarrow> bool" where
  "wf_dframe df = (distinct (col_names df) \<and> list_all (\<lambda>r. length r = length (col_names df)) (df_rows df))"

fun col_pos :: "string list \<Rightarrow> string \<Rightarrow> nat option" where
  "col_pos [] c = None"
| "col_pos (x # xs) c = (if x = c then Some 0 else map_option Suc (col_pos xs c))"

text \<open>\<open>dframe[columns]\<close>: a \<open>KeyError\<close> when a column is not in the frame.\<close>

definition select_columns :: "'v dframe \<Rightarrow> string list \<Rightarrow> error + 'v dframe" where
  "select_columns df columns =
     (if set columns \<subseteq> set (col_names df)
      then Inr \<lparr>col_names = columns,
                df_rows = map (\<lambda>r. map (\<lambda>c. case col_pos (col_names df) c of
                                             Some i \<Rightarrow> r ! i | None \<Rightarrow> NaN) columns) (df_rows df)\<rparr>
      else Inl KeyError)"

text \<open>\<open>dframe[col]\<close> for a column of the frame.\<close>

definition column :: "'v dframe \<Rightarrow> string \<Rightarrow> 'v cell list" where
  "column df c = (case col_pos (col_names df) c of
                    Some i \<Rightarrow> map (\<lambda>r. r ! i) (df_rows df) | None \<Rightarrow> [])"

fun vals_of :: "'v cell list \<Rightarrow> 'v list" where
  "vals_of [] = []"
| "vals_of (Val v # cs) = v # vals_of cs"
| "vals_of (c # cs) = vals_of cs"

text \<open>
  \<open>reverse_index\<close>: \<open>col.groupby(col).indices\<close>. pandas sorts the group keys, leaves
  the rows with a null key out (\<open>dropna=True\<close>) and lists each group's positions in
  increasing order.
\<close>

definition reverse_index :: "'v::linorder cell list \<Rightarrow> ('v \<times> nat list) list" where
  "reverse_index col =
     map (\<lambda>k. (k, filter (\<lambda>i. col ! i = Val k) [0 ..< length col])) (sort (remdups (vals_of col)))"

section \<open>The matcher\<close>

text \<open>
  The fields of \<open>Matcher\<close>. \<open>vals\<close> is \<open>self.values\<close>. Two fields are the
  embedding's: \<open>batch\<close>, the number of doubles \<open>rand_next\<close> draws at a refill
  (\<open>int(1e6)\<close> in the source), and \<open>warnings\<close>, what \<open>logger.warning\<close> was given
  (the pair \<open>(max_size, elems.size)\<close> of 'Sampling {max_size} out of {elems.size}').
\<close>

record 'v matcher =
  vals :: "'v cell list list"
  reverse :: "(string \<times> ('v \<times> nat list) list) list"
  col_order :: "(string \<times> nat) list"
  col_to_ix :: "(string \<times> nat) list"
  columns :: "string list"
  n_pairs :: "(string \<times> nat) list"
  rng :: rng_state
  rand_iter :: "nat list"
  frozen_valid :: "nat list"
  batch :: nat
  warnings :: "(nat \<times> nat) list"

definition clip_list ::
  "nat option \<Rightarrow> nat list \<Rightarrow> rng_state \<times> (nat \<times> nat) list \<Rightarrow> nat list \<times> rng_state \<times> (nat \<times> nat) list" where
  "clip_list max_size elems s =
     (case max_size of
        None \<Rightarrow> (elems, s)
      | Some ms \<Rightarrow>
          if ms \<noteq> 0 \<and> length elems > ms
          then (let (picked, g') = rng_choice (fst s) elems ms
                in (picked, g', snd s @ [(ms, length elems)]))
          else (elems, s))"

text \<open>\<open>reverse_index(dframe[col]).apply(clip_list)\<close>, group after group.\<close>

fun clip_groups ::
  "nat option \<Rightarrow> ('v \<times> nat list) list \<Rightarrow> rng_state \<times> (nat \<times> nat) list
     \<Rightarrow> ('v \<times> nat list) list \<times> rng_state \<times> (nat \<times> nat) list" where
  "clip_groups max_size [] s = ([], s)"
| "clip_groups max_size ((k, elems) # gs) s =
     (let (elems', s') = clip_list max_size elems s;
          (gs', s'') = clip_groups max_size gs s'
      in ((k, elems') # gs', s''))"

text \<open>The list \<open>mappers\<close>, column after column.\<close>

fun build_mappers ::
  "nat option \<Rightarrow> 'v::linorder dframe \<Rightarrow> string list \<Rightarrow> rng_state \<times> (nat \<times> nat) list
     \<Rightarrow> (string \<times> ('v \<times> nat list) list) list \<times> rng_state \<times> (nat \<times> nat) list" where
  "build_mappers max_size df [] s = ([], s)"
| "build_mappers max_size df (c # cs) s =
     (let (mp, s') = clip_groups max_size (reverse_index (column df c)) s;
          (rest, s'') = build_mappers max_size df cs s'
      in ((c, mp) # rest, s''))"

definition n_combs :: "('v \<times> nat list) list \<Rightarrow> nat" where
  "n_combs mapper = sum_list (map (\<lambda>(k, x). length x choose 2) mapper)"

definition lookup_nat :: "(string \<times> nat) list \<Rightarrow> string \<Rightarrow> nat" where
  "lookup_nat d c = (case map_of d c of Some n \<Rightarrow> n | None \<Rightarrow> 0)"

text \<open>
  \<open>Matcher.__init__\<close>. \<open>sorted(n_pairs, key=n_pairs.get)\<close> is a stable sort of the
  column names; \<open>mapper.apply(set)\<close> drops the repetitions of a clipped group.
\<close>

definition Matcher_init ::
  "runtime \<Rightarrow> nat \<Rightarrow> 'v::linorder dframe \<Rightarrow> string list \<Rightarrow> int \<Rightarrow> nat option \<Rightarrow> error + 'v matcher" where
  "Matcher_init rt batch_size dframe cols seed max_size =
     (case select_columns dframe cols of
        Inl e \<Rightarrow> Inl e
      | Inr df \<Rightarrow>
          (let (mappers, g, logged) =
                 build_mappers max_size df (col_names df) (\<lparr>tape = default_rng rt seed, pos = 0\<rparr>, []);
               npairs = map (\<lambda>(name, mapper). (name, n_combs mapper)) mappers;
               order = sort_key (lookup_nat npairs) (map fst npairs)
           in Inr \<lparr>vals = df_rows df,
                   reverse = map (\<lambda>(name, mapper). (name, map (\<lambda>(k, x). (k, remdups x)) mapper)) mappers,
                   col_order = zip order [0 ..< length order],
                   col_to_ix = zip cols [0 ..< length cols],
                   columns = cols,
                   n_pairs = npairs,
                   rng = g,
                   rand_iter = [],
                   frozen_valid = [0 ..< length (df_rows df)],
                   batch = batch_size,
                   warnings = logged\<rparr>))"

subsection \<open>Random draws\<close>

text \<open>
  The functions that draw from the generator change the matcher, also when they raise:
  they return the outcome and the matcher after the call.
\<close>

definition rand_next :: "'v matcher \<Rightarrow> (error + nat) \<times> 'v matcher" where
  "rand_next m =
     (case rand_iter m of
        v # rest \<Rightarrow> (Inr v, m\<lparr>rand_iter := rest\<rparr>)
      | [] \<Rightarrow>
          (let (rands, g') = rng_uniform (rng m) (batch m)
           in case rands of
                [] \<Rightarrow> (Inl StopIteration, m\<lparr>rng := g', rand_iter := []\<rparr>)
              | v # rest \<Rightarrow> (Inr v, m\<lparr>rng := g', rand_iter := rest\<rparr>)))"

text \<open>
  The arithmetic of \<open>int(u * (max_val - min_val + 1) + min_val)\<close> is that of binary64.
  The double \<open>u\<close> is \<open>k / 2 ^ 53\<close>, and the two Python integers become doubles, so
  every value on the way is a whole multiple of \<open>2 ^ -53\<close>; a double keeps 53
  significant bits, and a result with more is rounded to the nearest double, a tie to
  the one whose last bit is 0. \<open>excess_bits p\<close> is the number of bits \<open>p\<close> has over
  53, \<open>round_nat\<close> rounds a natural number to 53 significant bits, and \<open>to_double\<close>
  does so for an integer of either sign. The magnitudes are far below \<open>2 ^ 1024\<close>,
  where a double overflows, for every length of a list.
\<close>

fun excess_bits :: "nat \<Rightarrow> nat" where
  "excess_bits p = (if p < 2 ^ 53 then 0 else Suc (excess_bits (p div 2)))"

declare excess_bits.simps [simp del]

definition round_nat :: "nat \<Rightarrow> nat" where
  "round_nat p =
     (let e = excess_bits p; q = p div 2 ^ e; r = p mod 2 ^ e
      in (if 2 * r < 2 ^ e \<or> (2 * r = 2 ^ e \<and> even q) then q else q + 1) * 2 ^ e)"

definition to_double :: "int \<Rightarrow> int" where
  "to_double x = (if 0 \<le> x then int (round_nat (nat x)) else - int (round_nat (nat (- x))))"

text \<open>
  Python's \<open>int\<close> of a float truncates towards zero; the float is given by its
  numerator over \<open>2 ^ 53\<close>.
\<close>

definition py_int :: "int \<Rightarrow> int" where
  "py_int s = (if 0 \<le> s then s div 2 ^ 53 else - ((- s) div 2 ^ 53))"

text \<open>
  \<open>int(u * (max_val - min_val + 1) + min_val)\<close> for the double \<open>u = k / 2 ^ 53\<close>: the
  product of two doubles, the sum of two doubles, and the truncation.
\<close>

definition scaled :: "nat \<Rightarrow> int \<Rightarrow> int \<Rightarrow> int" where
  "scaled k min_val max_val =
     (let product = to_double (int k * to_double (max_val - min_val + 1));
          total = to_double (product + to_double min_val * 2 ^ 53)
      in py_int total)"

definition integers :: "'v matcher \<Rightarrow> int \<Rightarrow> int \<Rightarrow> (error + int) \<times> 'v matcher" where
  "integers m min_val max_val =
     (case rand_next m of
        (Inl e, m') \<Rightarrow> (Inl e, m')
      | (Inr u, m') \<Rightarrow> (Inr (scaled u min_val max_val), m'))"

text \<open>\<open>items[pos]\<close>: a negative position counts from the end.\<close>

definition py_item :: "'a list \<Rightarrow> int \<Rightarrow> error + 'a" where
  "py_item items p =
     (if 0 \<le> p \<and> p < int (length items) then Inr (items ! nat p)
      else if p < 0 \<and> - int (length items) \<le> p then Inr (items ! nat (int (length items) + p))
      else Inl IndexError)"

definition choice :: "'v matcher \<Rightarrow> 'a list \<Rightarrow> (error + 'a) \<times> 'v matcher" where
  "choice m items =
     (case integers m 0 (int (length items) - 1) of
        (Inl e, m') \<Rightarrow> (Inl e, m')
      | (Inr p, m') \<Rightarrow> (py_item items p, m'))"

subsection \<open>The diffby filter\<close>

text \<open>
  One column of \<open>_filter_diffby\<close>: \<open>val = row[self.col_to_ix[col]]\<close>, then \<open>None\<close>
  for a null value (the loop's \<open>continue\<close>) and otherwise the set
  \<open>self.reverse[col][val]\<close>. A key that a dictionary does not hold is a \<open>KeyError\<close>.
\<close>

definition same_value_rows :: "'v matcher \<Rightarrow> 'v cell list \<Rightarrow> string \<Rightarrow> error + nat list option" where
  "same_value_rows m row col =
     (case map_of (col_to_ix m) col of
        None \<Rightarrow> Inl KeyError
      | Some ix \<Rightarrow>
          if length row \<le> ix then Inl IndexError
          else (case row ! ix of
                  Val v \<Rightarrow>
                    (case map_of (reverse m) col of
                       None \<Rightarrow> Inl KeyError
                     | Some mapper \<Rightarrow>
                         (case map_of mapper v of
                            None \<Rightarrow> Inl KeyError
                          | Some s \<Rightarrow> Inr (Some s)))
                | _ \<Rightarrow> Inr None))"

fun diffby_all_loop :: "'v matcher \<Rightarrow> 'v cell list \<Rightarrow> string list \<Rightarrow> nat list \<Rightarrow> error + nat list" where
  "diffby_all_loop m row [] valid = Inr valid"
| "diffby_all_loop m row (col # cols) valid =
     (case same_value_rows m row col of
        Inl e \<Rightarrow> Inl e
      | Inr None \<Rightarrow> diffby_all_loop m row cols valid
      | Inr (Some s) \<Rightarrow> diffby_all_loop m row cols (set_diff valid s))"

fun diffby_any_loop :: "'v matcher \<Rightarrow> 'v cell list \<Rightarrow> string list \<Rightarrow> error + nat list list" where
  "diffby_any_loop m row [] = Inr []"
| "diffby_any_loop m row (col # cols) =
     (case same_value_rows m row col of
        Inl e \<Rightarrow> Inl e
      | Inr None \<Rightarrow> diffby_any_loop m row cols
      | Inr (Some s) \<Rightarrow>
          (case diffby_any_loop m row cols of
             Inl e \<Rightarrow> Inl e
           | Inr mapped \<Rightarrow> Inr (s # mapped)))"

text \<open>
  \<open>_filter_diffby\<close>. \<open>set.intersection(*mapped)\<close> raises a \<open>TypeError\<close> when
  \<open>mapped\<close> is empty.
\<close>

definition filter_diffby ::
  "'v matcher \<Rightarrow> nat \<Rightarrow> string list \<Rightarrow> string list \<Rightarrow> nat list \<Rightarrow> error + nat list" where
  "filter_diffby m idx diffby_all diffby_any valid =
     (if length (vals m) \<le> idx then Inl IndexError
      else (case diffby_all_loop m (vals m ! idx) diffby_all valid of
              Inl e \<Rightarrow> Inl e
            | Inr valid1 \<Rightarrow>
                if diffby_any = [] then Inr valid1
                else (case diffby_any_loop m (vals m ! idx) diffby_any of
                        Inl e \<Rightarrow> Inl e
                      | Inr [] \<Rightarrow> Inl TypeError
                      | Inr (s # ss) \<Rightarrow> Inr (set_diff valid1 (set_intersection s ss)))))"

subsection \<open>Null pairs\<close>

definition null_sample ::
  "runtime \<Rightarrow> 'v matcher \<Rightarrow> string list \<Rightarrow> string list \<Rightarrow> (error + nat \<times> nat) \<times> 'v matcher" where
  "null_sample rt m diffby_all diffby_any =
     (case integers m 0 (int (length (frozen_valid m)) - 1) of
        (Inl e, m1) \<Rightarrow> (Inl e, m1)
      | (Inr id1, m1) \<Rightarrow>
          if id1 < 0 \<or> nat id1 \<notin> set (frozen_valid m) then (Inl KeyError, m1)
          else (case filter_diffby m1 (nat id1) diffby_all diffby_any
                       (set_diff (frozen_valid m) [nat id1]) of
                  Inl e \<Rightarrow> (Inl e, m1)
                | Inr valid \<Rightarrow>
                    if valid = [] then (Inl (UnpairedException id1), m1)
                    else (case choice m1 (set_iter rt valid) of
                            (Inl e, m2) \<Rightarrow> (Inl e, m2)
                          | (Inr id2, m2) \<Rightarrow> (Inr (nat id1, id2), m2))))"

text \<open>
  A sameby or diffby argument: a column name, a list of column names, or a dictionary
  that may hold the keys "all" and "any".
\<close>

datatype colspec = Name string | Cols "string list" | Dict "string list option" "string list option"

fun dict_get :: "string list option \<Rightarrow> string list" where
  "dict_get None = []"
| "dict_get (Some cs) = cs"

fun normalise :: "message \<Rightarrow> colspec \<Rightarrow> error + string list \<times> string list" where
  "normalise msg (Dict a n) =
     (if length (dict_get n) = 1 then Inl (ValueError msg) else Inr (dict_get a, dict_get n))"
| "normalise msg (Name c) = Inr ([c], [])"
| "normalise msg (Cols cs) = Inr (cs, [])"

text \<open>The loop of \<open>sample_null_pair\<close>: \<open>n\<close> is the number of tries left.\<close>

fun tries ::
  "runtime \<Rightarrow> nat \<Rightarrow> 'v matcher \<Rightarrow> string list \<Rightarrow> string list \<Rightarrow> (error + nat \<times> nat) \<times> 'v matcher" where
  "tries rt 0 m diffby_all diffby_any = (Inl (ValueError TriesExhausted), m)"
| "tries rt (Suc n) m diffby_all diffby_any =
     (case null_sample rt m diffby_all diffby_any of
        (Inr p, m') \<Rightarrow> (Inr p, m')
      | (Inl (UnpairedException i), m') \<Rightarrow> tries rt n m' diffby_all diffby_any
      | (Inl e, m') \<Rightarrow> (Inl e, m'))"

definition sample_null_pair ::
  "runtime \<Rightarrow> 'v matcher \<Rightarrow> colspec \<Rightarrow> int \<Rightarrow> (error + nat \<times> nat) \<times> 'v matcher" where
  "sample_null_pair rt m diffby n_tries =
     (case normalise DiffbyAnyOne diffby of
        Inl e \<Rightarrow> (Inl e, m)
      | Inr (diffby_all, diffby_any) \<Rightarrow> tries rt (nat n_tries) m diffby_all diffby_any)"

subsection \<open>All pairs of one sameby column\<close>

text \<open>
  The inner loop of \<open>_get_all_pairs_single\<close> over the rows of one group: \<open>processed\<close>
  is the set of the rows already taken as \<open>id1\<close>, the last argument what the iteration
  of the group has left.
\<close>

fun group_pairs ::
  "runtime \<Rightarrow> 'v matcher \<Rightarrow> string list \<Rightarrow> string list \<Rightarrow> nat list \<Rightarrow> nat list \<Rightarrow> nat list
     \<Rightarrow> error + (nat \<times> nat) list" where
  "group_pairs rt m diffby_all diffby_any rows processed [] = Inr []"
| "group_pairs rt m diffby_all diffby_any rows processed (id1 # rest) =
     (case filter_diffby m id1 diffby_all diffby_any (set_diff rows (id1 # processed)) of
        Inl e \<Rightarrow> Inl e
      | Inr valid \<Rightarrow>
          (case group_pairs rt m diffby_all diffby_any rows (id1 # processed) rest of
             Inl e \<Rightarrow> Inl e
           | Inr ps \<Rightarrow> Inr (map (Pair id1) (set_iter rt valid) @ ps)))"

text \<open>The outer loop over \<open>mapper.items()\<close>: a key enters \<open>pairs\<close> with its first pair.\<close>

fun all_groups ::
  "runtime \<Rightarrow> 'v matcher \<Rightarrow> string list \<Rightarrow> string list \<Rightarrow> ('v \<times> nat list) list
     \<Rightarrow> error + ('v \<times> (nat \<times> nat) list) list" where
  "all_groups rt m diffby_all diffby_any [] = Inr []"
| "all_groups rt m diffby_all diffby_any ((key, rows) # gs) =
     (case group_pairs rt m diffby_all diffby_any rows [] (set_iter rt rows) of
        Inl e \<Rightarrow> Inl e
      | Inr ps \<Rightarrow>
          (case all_groups rt m diffby_all diffby_any gs of
             Inl e \<Rightarrow> Inl e
           | Inr rest \<Rightarrow> Inr (if ps = [] then rest else (key, ps) # rest)))"

definition get_all_pairs_single ::
  "runtime \<Rightarrow> 'v matcher \<Rightarrow> string \<Rightarrow> string list \<Rightarrow> string list \<Rightarrow> error + ('v \<times> (nat \<times> nat) list) list" where
  "get_all_pairs_single rt m sameby diffby_all diffby_any =
     (case map_of (reverse m) sameby of
        None \<Rightarrow> Inl KeyError
      | Some mapper \<Rightarrow> all_groups rt m diffby_all diffby_any mapper)"

subsection \<open>Pairs across the groups of a column\<close>

text \<open>\<open>itertools.combinations(xs, 2)\<close>.\<close>

fun combinations2 :: "'a list \<Rightarrow> ('a \<times> 'a) list" where
  "combinations2 [] = []"
| "combinations2 (x # xs) = map (Pair x) xs @ combinations2 xs"

text \<open>
  \<open>_get_full_pairs\<close>: the keys of a dictionary are distinct, so the pairs of keys are
  the pairs of entries.
\<close>

definition get_full_pairs :: "runtime \<Rightarrow> ('v \<times> nat list) list \<Rightarrow> (nat \<times> nat) list" where
  "get_full_pairs rt mapper =
     concat (map (\<lambda>(a, b). List.product (set_iter rt (snd a)) (set_iter rt (snd b)))
                 (combinations2 mapper))"

text \<open>\<open>[self.col_to_ix[col] for col in columns]\<close>.\<close>

fun col_indices :: "'v matcher \<Rightarrow> string list \<Rightarrow> error + nat list" where
  "col_indices m [] = Inr []"
| "col_indices m (c # cs) =
     (case map_of (col_to_ix m) c of
        None \<Rightarrow> Inl KeyError
      | Some i \<Rightarrow> (case col_indices m cs of Inl e \<Rightarrow> Inl e | Inr ixs \<Rightarrow> Inr (i # ixs)))"

text \<open>
  The four conditions \<open>_filter_pairs_by_condition\<close> is called with ("any_same",
  "all_diff", "any_diff", and its default "all_same"), on the cells of the two rows in
  the chosen columns.
\<close>

datatype condition = AllSame | AnySame | AllDiff | AnyDiff

fun pair_valid :: "condition \<Rightarrow> 'v cell list \<Rightarrow> 'v cell list \<Rightarrow> bool" where
  "pair_valid AllSame vals_a vals_b = list_all (\<lambda>(x, y). cell_eq x y) (zip vals_a vals_b)"
| "pair_valid AnySame vals_a vals_b = list_ex (\<lambda>(x, y). cell_eq x y) (zip vals_a vals_b)"
| "pair_valid AllDiff vals_a vals_b = list_all (\<lambda>(x, y). \<not> cell_eq x y) (zip vals_a vals_b)"
| "pair_valid AnyDiff vals_a vals_b = list_ex (\<lambda>(x, y). \<not> cell_eq x y) (zip vals_a vals_b)"

definition take_cells :: "'v matcher \<Rightarrow> nat \<Rightarrow> nat list \<Rightarrow> 'v cell list" where
  "take_cells m i col_ix = map (\<lambda>j. vals m ! i ! j) col_ix"

definition in_range :: "'v matcher \<Rightarrow> (nat \<times> nat) list \<Rightarrow> nat list \<Rightarrow> bool" where
  "in_range m pairs col_ix =
     list_all (\<lambda>(a, b). a < length (vals m) \<and> b < length (vals m)
                 \<and> list_all (\<lambda>j. j < length (vals m ! a) \<and> j < length (vals m ! b)) col_ix) pairs"

text \<open>
  \<open>_filter_pairs_by_condition\<close>. Every caller passes an array that numpy made of a
  Python list; of an empty list it makes an array of one dimension, on which
  \<open>pairs[:, 0]\<close> raises an \<open>IndexError\<close>.
\<close>

definition filter_pairs_by_condition ::
  "'v matcher \<Rightarrow> (nat \<times> nat) list \<Rightarrow> string list \<Rightarrow> condition \<Rightarrow> error + (nat \<times> nat) list" where
  "filter_pairs_by_condition m pairs cols condition =
     (case col_indices m cols of
        Inl e \<Rightarrow> Inl e
      | Inr col_ix \<Rightarrow>
          if pairs = [] \<or> \<not> in_range m pairs col_ix then Inl IndexError
          else Inr (filter (\<lambda>(a, b). pair_valid condition (take_cells m a col_ix) (take_cells m b col_ix))
                           pairs))"

text \<open>
  The key of a list of pairs: \<open>None\<close>, the value of the one sameby column, or the
  \<open>ComposedKey\<close> tuple of the values of several.
\<close>

datatype 'v key = KNone | KVal 'v | ComposedKey "'v cell list"

text \<open>\<open>np.unique(pairs, axis=0)\<close>: the distinct rows, in lexicographic order.\<close>

definition np_unique :: "(nat \<times> nat) list \<Rightarrow> (nat \<times> nat) list" where
  "np_unique pairs = sort (remdups pairs)"

definition sorted_by_order :: "'v matcher \<Rightarrow> string list \<Rightarrow> string list" where
  "sorted_by_order m cols = sort_key (lookup_nat (col_order m)) cols"

definition only_diffby_all ::
  "runtime \<Rightarrow> 'v matcher \<Rightarrow> string list \<Rightarrow> error + ('v key \<times> (nat \<times> nat) list) list" where
  "only_diffby_all rt m diffby_all =
     (case sorted_by_order m diffby_all of
        [] \<Rightarrow> Inl IndexError
      | c # cs \<Rightarrow>
          (case map_of (reverse m) c of
             None \<Rightarrow> Inl KeyError
           | Some mapper \<Rightarrow>
               (case (if cs \<noteq> [] then filter_pairs_by_condition m (get_full_pairs rt mapper) cs AllDiff
                      else Inr (get_full_pairs rt mapper)) of
                  Inl e \<Rightarrow> Inl e
                | Inr pairs \<Rightarrow> Inr [(KNone, np_unique pairs)])))"

fun full_pairs_of_columns :: "runtime \<Rightarrow> 'v matcher \<Rightarrow> string list \<Rightarrow> error + (nat \<times> nat) list" where
  "full_pairs_of_columns rt m [] = Inr []"
| "full_pairs_of_columns rt m (c # cs) =
     (case map_of (reverse m) c of
        None \<Rightarrow> Inl KeyError
      | Some mapper \<Rightarrow>
          (case full_pairs_of_columns rt m cs of
             Inl e \<Rightarrow> Inl e
           | Inr pairs \<Rightarrow> Inr (get_full_pairs rt mapper @ pairs)))"

text \<open>\<open>_only_diffby_any\<close>: \<open>np.sort\<close> puts the smaller identifier of each pair first.\<close>

definition only_diffby_any ::
  "runtime \<Rightarrow> 'v matcher \<Rightarrow> string list \<Rightarrow> error + ('v key \<times> (nat \<times> nat) list) list" where
  "only_diffby_any rt m diffby =
     (case full_pairs_of_columns rt m (sorted_by_order m diffby) of
        Inl e \<Rightarrow> Inl e
      | Inr pairs \<Rightarrow> Inr [(KNone, np_unique (map (\<lambda>(a, b). (min a b, max a b)) pairs))])"

definition only_diffby_all_any ::
  "runtime \<Rightarrow> 'v matcher \<Rightarrow> string list \<Rightarrow> string list \<Rightarrow> error + ('v key \<times> (nat \<times> nat) list) list" where
  "only_diffby_all_any rt m diffby_all diffby_any =
     (case only_diffby_all rt m diffby_all of
        Inl e \<Rightarrow> Inl e
      | Inr d \<Rightarrow>
          (case map_of d KNone of
             None \<Rightarrow> Inl KeyError
           | Some diffby_all_pairs \<Rightarrow>
               (case filter_pairs_by_condition m diffby_all_pairs diffby_any AnyDiff of
                  Inl e \<Rightarrow> Inl e
                | Inr diffby_all_any \<Rightarrow> Inr [(KNone, diffby_all_any)])))"

subsection \<open>Several sameby columns\<close>

text \<open>\<open>pairs.setdefault(key, list()).append(pair)\<close> on a dictionary in insertion order.\<close>

fun setdefault_append :: "'k \<Rightarrow> 'a \<Rightarrow> ('k \<times> 'a list) list \<Rightarrow> ('k \<times> 'a list) list" where
  "setdefault_append k x [] = [(k, [x])]"
| "setdefault_append k x ((k', xs) # d) =
     (if k' = k then (k', xs @ [x]) # d else (k', xs) # setdefault_append k x d)"

text \<open>
  \<open>ComposedKey(**dict(zip(sameby_all, vals)))\<close>: the values are zipped with the sorted
  column names and land in the fields, which stand in the caller's order.
\<close>

definition composed_key :: "string list \<Rightarrow> string list \<Rightarrow> 'v cell list \<Rightarrow> 'v key" where
  "composed_key field_names sorted_cols cells =
     ComposedKey (map (\<lambda>c. case map_of (zip sorted_cols cells) c of Some v \<Rightarrow> v | None \<Rightarrow> NaN) field_names)"

definition composed_step ::
  "'v matcher \<Rightarrow> string list \<Rightarrow> string list \<Rightarrow> nat list
     \<Rightarrow> ('v key \<times> (nat \<times> nat) list) list \<Rightarrow> 'v \<times> nat \<times> nat \<Rightarrow> ('v key \<times> (nat \<times> nat) list) list" where
  "composed_step m field_names sorted_cols col_ix pairs entry =
     (case entry of (key, id1, id2) \<Rightarrow>
        if pair_valid AllSame (take_cells m id1 col_ix) (take_cells m id2 col_ix)
        then setdefault_append (composed_key field_names sorted_cols (Val key # take_cells m id1 col_ix))
               (id1, id2) pairs
        else pairs)"

text \<open>
  The branch \<open>len(sameby_all) > 1\<close> of \<open>get_all_pairs\<close>. \<open>namedtuple\<close> raises a
  \<open>ValueError\<close> for field names it refuses.
\<close>

definition composed_pairs ::
  "runtime \<Rightarrow> 'v matcher \<Rightarrow> string list \<Rightarrow> string list \<Rightarrow> string list
     \<Rightarrow> error + ('v key \<times> (nat \<times> nat) list) list" where
  "composed_pairs rt m sameby_all diffby_all diffby_any =
     (if \<not> namedtuple_ok rt sameby_all then Inl (ValueError BadFieldNames)
      else (case sorted_by_order m sameby_all of
              [] \<Rightarrow> Inl IndexError
            | c # cs \<Rightarrow>
                (case get_all_pairs_single rt m c diffby_all diffby_any of
                   Inl e \<Rightarrow> Inl e
                 | Inr candidates \<Rightarrow>
                     (case col_indices m cs of
                        Inl e \<Rightarrow> Inl e
                      | Inr col_ix \<Rightarrow>
                          if \<not> in_range m (concat (map snd candidates)) col_ix then Inl IndexError
                          else Inr (foldl (composed_step m sameby_all (c # cs) col_ix) []
                                      (concat (map (\<lambda>(key, indices). map (Pair key) indices) candidates)))))))"

subsection \<open>sameby any\<close>

text \<open>\<open>[v[0] for v in pairs.values()]\<close>.\<close>

fun first_pairs :: "('k \<times> 'a list) list \<Rightarrow> error + 'a list" where
  "first_pairs [] = Inr []"
| "first_pairs ((k, []) # d) = Inl IndexError"
| "first_pairs ((k, x # xs) # d) = (case first_pairs d of Inl e \<Rightarrow> Inl e | Inr ys \<Rightarrow> Inr (x # ys))"

text \<open>\<open>{k: v for k, v in pairs.items() if v in pairs_any}\<close>.\<close>

fun keep_contained ::
  "runtime \<Rightarrow> (nat \<times> nat) list \<Rightarrow> ('k \<times> (nat \<times> nat) list) list \<Rightarrow> error + ('k \<times> (nat \<times> nat) list) list" where
  "keep_contained rt pairs_any [] = Inr []"
| "keep_contained rt pairs_any ((k, v) # d) =
     (case array_contains rt pairs_any v of
        Inl e \<Rightarrow> Inl e
      | Inr keep \<Rightarrow>
          (case keep_contained rt pairs_any d of
             Inl e \<Rightarrow> Inl e
           | Inr d' \<Rightarrow> Inr (if keep then (k, v) # d' else d')))"

text \<open>The loop \<open>for col in sameby_any\<close>: the first pair of every key of every column.\<close>

fun any_first_pairs ::
  "runtime \<Rightarrow> 'v matcher \<Rightarrow> string list \<Rightarrow> string list \<Rightarrow> string list \<Rightarrow> error + (nat \<times> nat) list" where
  "any_first_pairs rt m [] diffby_all diffby_any = Inr []"
| "any_first_pairs rt m (col # cols) diffby_all diffby_any =
     (case get_all_pairs_single rt m col diffby_all diffby_any of
        Inl e \<Rightarrow> Inl e
      | Inr col_pairs \<Rightarrow>
          (case first_pairs col_pairs of
             Inl e \<Rightarrow> Inl e
           | Inr firsts \<Rightarrow>
               (case any_first_pairs rt m cols diffby_all diffby_any of
                  Inl e \<Rightarrow> Inl e
                | Inr others \<Rightarrow> Inr (firsts @ others))))"

text \<open>
  The block \<open>if sameby_any:\<close>. The set of pairs becomes a list and is sorted by
  \<open>(x[0], x[1])\<close>.
\<close>

definition apply_sameby_any ::
  "runtime \<Rightarrow> 'v matcher \<Rightarrow> string list \<Rightarrow> string list \<Rightarrow> string list
     \<Rightarrow> ('v key \<times> (nat \<times> nat) list) list \<Rightarrow> error + ('v key \<times> (nat \<times> nat) list) list" where
  "apply_sameby_any rt m sameby_any diffby_all diffby_any pairs =
     (if sameby_any = [] then Inr pairs
      else if pairs \<noteq> []
      then (case first_pairs pairs of
              Inl e \<Rightarrow> Inl e
            | Inr pair_values \<Rightarrow>
                (case filter_pairs_by_condition m pair_values sameby_any AnySame of
                   Inl e \<Rightarrow> Inl e
                 | Inr pairs_any \<Rightarrow> keep_contained rt pairs_any pairs))
      else (case any_first_pairs rt m sameby_any diffby_all diffby_any of
              Inl e \<Rightarrow> Inl e
            | Inr found \<Rightarrow> Inr [(KNone, sort (remdups found))]))"

subsection \<open>get_all_pairs\<close>

text \<open>The block \<open>if sameby_all: ... else: pairs = dict()\<close>.\<close>

definition sameby_all_pairs ::
  "runtime \<Rightarrow> 'v matcher \<Rightarrow> string list \<Rightarrow> string list \<Rightarrow> string list
     \<Rightarrow> error + ('v key \<times> (nat \<times> nat) list) list" where
  "sameby_all_pairs rt m sameby_all diffby_all diffby_any =
     (case sameby_all of
        [] \<Rightarrow> Inr []
      | [key] \<Rightarrow>
          (case get_all_pairs_single rt m key diffby_all diffby_any of
             Inl e \<Rightarrow> Inl e
           | Inr pairs \<Rightarrow> Inr (map (\<lambda>(k, v). (KVal k, v)) pairs))
      | _ \<Rightarrow> composed_pairs rt m sameby_all diffby_all diffby_any)"

text \<open>
  The three checks of the specification, in the order of the source. The first is
  \<open>set(sameby_all) & set(sameby_any) & set(diffby_all) & set(diffby_any)\<close>: the
  intersection of all four sets.
\<close>

definition check_spec ::
  "'v matcher \<Rightarrow> string list \<Rightarrow> string list \<Rightarrow> string list \<Rightarrow> string list \<Rightarrow> error option" where
  "check_spec m sameby_all sameby_any diffby_all diffby_any =
     (if list_ex (\<lambda>c. c \<in> set sameby_any \<and> c \<in> set diffby_all \<and> c \<in> set diffby_any) sameby_all
      then Some (ValueError NotDisjoint)
      else if sameby_all = [] \<and> sameby_any = [] \<and> diffby_all = [] \<and> diffby_any = []
      then Some (ValueError NoColumns)
      else if \<not> set (sameby_all @ sameby_any @ diffby_all @ diffby_any) \<subseteq> set (columns m)
      then Some (ValueError (MissingColumns
                  (filter (\<lambda>c. c \<notin> set (columns m))
                     (remdups (sameby_all @ sameby_any @ diffby_all @ diffby_any)))))
      else None)"

definition get_all_pairs ::
  "runtime \<Rightarrow> 'v matcher \<Rightarrow> colspec \<Rightarrow> colspec \<Rightarrow> error + ('v key \<times> (nat \<times> nat) list) list" where
  "get_all_pairs rt m sameby diffby =
     (case normalise SamebyAnyOne sameby of
        Inl e \<Rightarrow> Inl e
      | Inr (sameby_all, sameby_any) \<Rightarrow>
          (case normalise DiffbyAnyOne diffby of
             Inl e \<Rightarrow> Inl e
           | Inr (diffby_all, diffby_any) \<Rightarrow>
               (case check_spec m sameby_all sameby_any diffby_all diffby_any of
                  Some e \<Rightarrow> Inl e
                | None \<Rightarrow>
                    if sameby_all = [] \<and> sameby_any = []
                    then (if diffby_any = [] then only_diffby_all rt m diffby_all
                          else if diffby_all = [] then only_diffby_any rt m diffby_any
                          else only_diffby_all_any rt m diffby_all diffby_any)
                    else (case sameby_all_pairs rt m sameby_all diffby_all diffby_any of
                            Inl e \<Rightarrow> Inl e
                          | Inr pairs \<Rightarrow>
                              apply_sameby_any rt m sameby_any diffby_all diffby_any pairs))))"

section \<open>The multilabel matcher\<close>

text \<open>
  The frame \<open>MatcherMultilabel\<close> is given, with the default index: every row holds the
  list of its labels (the cell of the multilabel column) and its cells in the other
  columns, whose names are \<open>scalar_names\<close>.
\<close>

record 'v ml_dframe =
  scalar_names :: "string list"
  ml_rows :: "('v cell list \<times> 'v cell list) list"

text \<open>
  The fields of \<open>MatcherMultilabel\<close>; \<open>ml_size\<close> is \<open>self.size\<close> and \<open>inner\<close> is
  \<open>self.matcher\<close>.
\<close>

record 'v matcher_multilabel =
  multilabel_col :: string
  ml_size :: nat
  multilabel_set :: "'v cell list list"
  original_index :: "nat list"
  inner :: "'v matcher"

text \<open>
  \<open>dframe.explode(multilabel_col)\<close>: one row per label, and one row with \<open>nan\<close> for
  an empty list; every row keeps the index of the row it comes from.
\<close>

fun explode_row :: "nat \<Rightarrow> 'v cell list \<times> 'v cell list \<Rightarrow> (nat \<times> 'v cell list) list" where
  "explode_row i ([], cells) = [(i, NaN # cells)]"
| "explode_row i (labels, cells) = map (\<lambda>l. (i, l # cells)) labels"

definition explode :: "string \<Rightarrow> 'v ml_dframe \<Rightarrow> nat list \<times> 'v dframe" where
  "explode col df =
     (let exploded = concat (map (\<lambda>(i, r). explode_row i r) (enumerate 0 (ml_rows df)))
      in (map fst exploded, \<lparr>col_names = col # scalar_names df, df_rows = map snd exploded\<rparr>))"

definition MatcherMultilabel_init ::
  "runtime \<Rightarrow> nat \<Rightarrow> 'v::linorder ml_dframe \<Rightarrow> string list \<Rightarrow> string \<Rightarrow> int
     \<Rightarrow> error + 'v matcher_multilabel" where
  "MatcherMultilabel_init rt batch_size dframe cols col seed =
     (case Matcher_init rt batch_size (snd (explode col dframe)) cols seed None of
        Inl e \<Rightarrow> Inl e
      | Inr m \<Rightarrow>
          Inr \<lparr>multilabel_col = col,
               ml_size = length (ml_rows dframe),
               multilabel_set = map (\<lambda>(labels, cells). remdups labels) (ml_rows dframe),
               original_index = fst (explode col dframe),
               inner = m\<rparr>)"

text \<open>\<open>len(a & b) == 0\<close> on two sets of labels.\<close>

definition labels_disjoint :: "'v cell list \<Rightarrow> 'v cell list \<Rightarrow> bool" where
  "labels_disjoint a b = list_all (\<lambda>l. l \<notin> set b) a"

text \<open>
  The loop of \<open>MatcherMultilabel.get_all_pairs\<close> over \<open>pairs.items()\<close>. On the array
  numpy makes of an empty list, \<open>values[:, 0]\<close> raises an \<open>IndexError\<close>.
\<close>

fun map_to_original ::
  "'v matcher_multilabel \<Rightarrow> bool \<Rightarrow> ('k \<times> (nat \<times> nat) list) list \<Rightarrow> error + ('k \<times> (nat \<times> nat) list) list" where
  "map_to_original mm diffby_multi [] = Inr []"
| "map_to_original mm diffby_multi ((key, pairs) # d) =
     (if pairs = []
         \<or> \<not> list_all (\<lambda>(a, b). a < length (original_index mm) \<and> b < length (original_index mm)
                           \<and> original_index mm ! a < length (multilabel_set mm)
                           \<and> original_index mm ! b < length (multilabel_set mm)) pairs
      then Inl IndexError
      else (case map_to_original mm diffby_multi d of
              Inl e \<Rightarrow> Inl e
            | Inr d' \<Rightarrow>
                Inr ((key,
                      filter (\<lambda>(a, b). \<not> diffby_multi
                                 \<or> labels_disjoint (multilabel_set mm ! a) (multilabel_set mm ! b))
                        (map (\<lambda>(a, b). (original_index mm ! a, original_index mm ! b)) pairs)) # d')))"

text \<open>
  The lines of \<open>MatcherMultilabel.get_all_pairs\<close> after the early return: the call of the
  inner matcher and the loop.
\<close>

definition ml_pairs_body ::
  "runtime \<Rightarrow> 'v matcher_multilabel \<Rightarrow> colspec \<Rightarrow> string list \<Rightarrow> bool
     \<Rightarrow> error + ('v key \<times> (nat \<times> nat) list) list" where
  "ml_pairs_body rt mm sameby diffby diffby_multi =
     (case get_all_pairs rt (inner mm) sameby (Cols diffby) of
        Inl e \<Rightarrow> Inl e
      | Inr pairs \<Rightarrow> map_to_original mm diffby_multi pairs)"

text \<open>
  \<open>_only_diffby_multi\<close>. Its call \<open>self.get_all_pairs(self.multilabel_col, [])\<close> has an
  empty diffby, so it does not take the early return again: it is the body above with
  \<open>diffby_multi\<close> false. \<open>set(x) not in pairs\<close> compares unordered pairs.
\<close>

definition only_diffby_multi ::
  "runtime \<Rightarrow> 'v matcher_multilabel \<Rightarrow> error + ('v key \<times> (nat \<times> nat) list) list" where
  "only_diffby_multi rt mm =
     (case ml_pairs_body rt mm (Name (multilabel_col mm)) [] False of
        Inl e \<Rightarrow> Inl e
      | Inr pairs \<Rightarrow>
          Inr [(KNone,
                filter (\<lambda>(i, j). \<not> list_ex (\<lambda>(a, b). (a = i \<and> b = j) \<or> (a = j \<and> b = i))
                                    (concat (map snd pairs)))
                  (combinations2 [0 ..< ml_size mm]))])"

text \<open>Python's \<open>not x\<close> on a sameby argument.\<close>

fun falsy :: "colspec \<Rightarrow> bool" where
  "falsy (Name c) = (c = [])"
| "falsy (Cols cs) = (cs = [])"
| "falsy (Dict a n) = (a = None \<and> n = None)"

definition ml_get_all_pairs ::
  "runtime \<Rightarrow> 'v matcher_multilabel \<Rightarrow> colspec \<Rightarrow> string list \<Rightarrow> error + ('v key \<times> (nat \<times> nat) list) list" where
  "ml_get_all_pairs rt mm sameby diffby =
     (let diffby_multi = (multilabel_col mm \<in> set diffby);
          diffby' = (if diffby_multi then filter (\<lambda>col. multilabel_col mm \<noteq> col) diffby else diffby)
      in if diffby' = [] \<and> falsy sameby \<and> diffby_multi then only_diffby_multi rt mm
         else ml_pairs_body rt mm sameby diffby' diffby_multi)"

section \<open>A sequence of calls\<close>

text \<open>
  A caller's calls on one matcher, in order. An exception ends the call that raised it;
  the matcher stays as that call left it.
\<close>

datatype call = SampleNullPair colspec int | GetAllPairs colspec colspec

datatype 'v answer = NullPair "nat \<times> nat" | AllPairs "('v key \<times> (nat \<times> nat) list) list"

fun run :: "runtime \<Rightarrow> 'v matcher \<Rightarrow> call list \<Rightarrow> (error + 'v answer) list" where
  "run rt m [] = []"
| "run rt m (SampleNullPair diffby n_tries # cs) =
     (case sample_null_pair rt m diffby n_tries of
        (r, m') \<Rightarrow> map_sum id NullPair r # run rt m' cs)"
| "run rt m (GetAllPairs sameby diffby # cs) =
     map_sum id AllPairs (get_all_pairs rt m sameby diffby) # run rt m cs"

section \<open>Scenario data\<close>

text \<open>
  The values of the scenarios' cells: Python integers and strings. pandas sorts the keys
  of one column, which are of one kind; across the kinds the order is only there to make
  the type a linear order.
\<close>

datatype pyval = PInt int | PStr string

instantiation pyval :: linorder
begin

fun less_eq_pyval :: "pyval \<Rightarrow> pyval \<Rightarrow> bool" where
  "less_eq_pyval (PInt a) (PInt b) = (a \<le> b)"
| "less_eq_pyval (PInt a) (PStr t) = True"
| "less_eq_pyval (PStr s) (PInt b) = False"
| "less_eq_pyval (PStr s) (PStr t) = (s \<le> t)"

definition less_pyval :: "pyval \<Rightarrow> pyval \<Rightarrow> bool" where
  "less_pyval x y = (x \<le> y \<and> \<not> y \<le> x)"

instance
proof
  fix x y z :: pyval
  show "(x < y) = (x \<le> y \<and> \<not> y \<le> x)" by (simp add: less_pyval_def)
  show "x \<le> x" by (cases x) simp_all
  show "x \<le> y \<Longrightarrow> y \<le> z \<Longrightarrow> x \<le> z" by (cases x; cases y; cases z) auto
  show "x \<le> y \<Longrightarrow> y \<le> x \<Longrightarrow> x = y" by (cases x; cases y) auto
  show "x \<le> y \<or> y \<le> x" by (cases x; cases y) auto
qed

end

text \<open>Scenario A: compound = [X, X, Y, Y], plate = [1, 2, 1, 2].\<close>

definition scenario_A :: "pyval dframe" where
  "scenario_A = \<lparr>col_names = [''compound'', ''plate''],
     df_rows = [[Val (PStr ''X''), Val (PInt 1)], [Val (PStr ''X''), Val (PInt 2)],
                [Val (PStr ''Y''), Val (PInt 1)], [Val (PStr ''Y''), Val (PInt 2)]]\<rparr>"

text \<open>
  A runtime that iterates every set in increasing order; its generator gives the word 0
  at every position.
\<close>

definition ascending :: runtime where
  "ascending = \<lparr>set_iter = (\<lambda>xs. sort (remdups xs)), default_rng = (\<lambda>seed i. 0),
     namedtuple_ok = distinct, array_contains = (\<lambda>a v. Inr False)\<rparr>"

text \<open>
  CPython keeps a non-negative integer below the size of the set's table at the slot of
  its value, and the smallest table has 8 slots: a set of identifiers below 8 is iterated
  in increasing order.
\<close>

definition iter_ascending_below :: "nat \<Rightarrow> runtime \<Rightarrow> bool" where
  "iter_ascending_below n rt =
     (\<forall>xs. list_all (\<lambda>x. x < n) xs \<longrightarrow> set_iter rt xs = sort (remdups xs))"

text \<open>
  Two rows that share the value of column c; the first row is null in both of the
  columns a and b.
\<close>

definition null_rows :: "pyval dframe" where
  "null_rows = \<lparr>col_names = [''c'', ''a'', ''b''],
     df_rows = [[Val (PStr ''X''), NaN, NaN],
                [Val (PStr ''X''), Val (PInt 1), Val (PInt 2)]]\<rparr>"

text \<open>
  Three rows: row 0 shares its compound with row 1 and its plate with row 2, so no row
  differs from it on both columns.
\<close>

definition three_rows :: "pyval dframe" where
  "three_rows = \<lparr>col_names = [''compound'', ''plate''],
     df_rows = [[Val (PStr ''X''), Val (PInt 1)], [Val (PStr ''X''), Val (PInt 2)],
                [Val (PStr ''Y''), Val (PInt 1)]]\<rparr>"

text \<open>
  A runtime whose generator gives the word \<open>2 ^ 52\<close> (the double 1/2) at position 1 and
  the word 0 at every other position.
\<close>

definition half_second :: runtime where
  "half_second = \<lparr>set_iter = (\<lambda>xs. sort (remdups xs)),
     default_rng = (\<lambda>seed i. if i = 1 then 2 ^ 52 else 0),
     namedtuple_ok = distinct, array_contains = (\<lambda>a v. Inr False)\<rparr>"

text \<open>
  The matchers \<open>Matcher.__init__\<close> builds of the last two frames with a refill size of 2,
  as they stand when the generator has reached position \<open>p\<close> and the doubles whose
  numerators are \<open>buf\<close> are left of the batch.
\<close>

definition matcher_one_compound :: "nat \<Rightarrow> nat list \<Rightarrow> pyval matcher" where
  "matcher_one_compound p buf =
     \<lparr>vals = [[Val (PStr ''X'')], [Val (PStr ''X'')]],
      reverse = [(''compound'', [(PStr ''X'', [0, 1])])],
      col_order = [(''compound'', 0)], col_to_ix = [(''compound'', 0)],
      columns = [''compound''], n_pairs = [(''compound'', 1)],
      rng = \<lparr>tape = \<lambda>i. 0, pos = p\<rparr>, rand_iter = buf,
      frozen_valid = [0, 1], batch = 2, warnings = []\<rparr>"

definition matcher_three_rows :: "nat \<Rightarrow> nat list \<Rightarrow> pyval matcher" where
  "matcher_three_rows p buf =
     \<lparr>vals = [[Val (PStr ''X''), Val (PInt 1)], [Val (PStr ''X''), Val (PInt 2)],
              [Val (PStr ''Y''), Val (PInt 1)]],
      reverse = [(''compound'', [(PStr ''X'', [0, 1]), (PStr ''Y'', [2])]),
                 (''plate'', [(PInt 1, [0, 2]), (PInt 2, [1])])],
      col_order = [(''compound'', 0), (''plate'', 1)],
      col_to_ix = [(''compound'', 0), (''plate'', 1)],
      columns = [''compound'', ''plate''], n_pairs = [(''compound'', 1), (''plate'', 1)],
      rng = \<lparr>tape = \<lambda>i. if i = 1 then 2 ^ 52 else 0, pos = p\<rparr>, rand_iter = buf,
      frozen_valid = [0, 1, 2], batch = 2, warnings = []\<rparr>"

text \<open>Three rows of one compound.\<close>

definition three_x :: "pyval dframe" where
  "three_x = \<lparr>col_names = [''compound''],
     df_rows = [[Val (PStr ''X'')], [Val (PStr ''X'')], [Val (PStr ''X'')]]\<rparr>"

text \<open>
  The matcher \<open>Matcher.__init__\<close> builds of \<open>three_x\<close> with \<open>max_size = 2\<close> and a
  refill size of 2, when both draws of \<open>rng.choice\<close> fall on position 0 of the group.
\<close>

definition matcher_three_x :: "pyval matcher" where
  "matcher_three_x =
     \<lparr>vals = [[Val (PStr ''X'')], [Val (PStr ''X'')], [Val (PStr ''X'')]],
      reverse = [(''compound'', [(PStr ''X'', [0])])],
      col_order = [(''compound'', 0)], col_to_ix = [(''compound'', 0)],
      columns = [''compound''], n_pairs = [(''compound'', 1)],
      rng = \<lparr>tape = \<lambda>i. 0, pos = 2\<rparr>, rand_iter = [],
      frozen_valid = [0, 1, 2], batch = 2, warnings = [(2, 3)]\<rparr>"

text \<open>
  Two rows whose only label in column c is \<open>None\<close>, with the plates 1 and 2 in
  column p.
\<close>

definition none_labels :: "pyval ml_dframe" where
  "none_labels = \<lparr>scalar_names = [''p''],
     ml_rows = [([PyNone], [Val (PInt 1)]), ([PyNone], [Val (PInt 2)])]\<rparr>"

text \<open>Scenario E: the labels {a, b}, {b} and {c} over three rows.\<close>

definition scenario_E :: "pyval ml_dframe" where
  "scenario_E = \<lparr>scalar_names = [],
     ml_rows = [([Val (PStr ''a''), Val (PStr ''b'')], []), ([Val (PStr ''b'')], []),
                ([Val (PStr ''c'')], [])]\<rparr>"

text \<open>
  Twelve rows of two columns: c1 holds A in the rows 1 and 8, c2 holds P in the rows 1,
  8, 9, 10 and 11, and every other cell is \<open>nan\<close>.
\<close>

definition twelve_rows :: "pyval dframe" where
  "twelve_rows = \<lparr>col_names = [''c1'', ''c2''],
     df_rows = [[NaN, NaN], [Val (PStr ''A''), Val (PStr ''P'')], [NaN, NaN], [NaN, NaN],
                [NaN, NaN], [NaN, NaN], [NaN, NaN], [NaN, NaN],
                [Val (PStr ''A''), Val (PStr ''P'')], [NaN, Val (PStr ''P'')],
                [NaN, Val (PStr ''P'')], [NaN, Val (PStr ''P'')]]\<rparr>"

text \<open>
  CPython iterates a set in the order of the slots of its table. A set of fewer than
  five integers has a table of 8 slots, where an integer that collides with no other is
  at the slot of its value modulo 8; the sets of five integers below 32 that are
  iterated on \<open>twelve_rows\<close> are in increasing order. The runtime below gives this
  order; on the sets with a collision, which do not occur on \<open>twelve_rows\<close>, it keeps
  the order of the values.
\<close>

definition slot_order :: runtime where
  "slot_order = \<lparr>set_iter = (\<lambda>xs. if length (remdups xs) < 5
                                    then sort_key (\<lambda>x. x mod 8) (sort (remdups xs))
                                    else sort (remdups xs)),
     default_rng = (\<lambda>seed i. 0), namedtuple_ok = distinct, array_contains = (\<lambda>a v. Inr False)\<rparr>"

text \<open>
  The matcher \<open>Matcher.__init__\<close> builds of \<open>null_rows\<close> with a refill size of 2 under
  the runtime \<open>half_second\<close>, when the generator has reached position \<open>p\<close> and the
  doubles whose numerators are \<open>buf\<close> are left of the batch.
\<close>

definition matcher_null_rows :: "nat \<Rightarrow> nat list \<Rightarrow> pyval matcher" where
  "matcher_null_rows p buf =
     \<lparr>vals = [[Val (PStr ''X''), NaN, NaN], [Val (PStr ''X''), Val (PInt 1), Val (PInt 2)]],
      reverse = [(''c'', [(PStr ''X'', [0, 1])]), (''a'', [(PInt 1, [1])]),
                 (''b'', [(PInt 2, [1])])],
      col_order = [(''a'', 0), (''b'', 1), (''c'', 2)],
      col_to_ix = [(''c'', 0), (''a'', 1), (''b'', 2)],
      columns = [''c'', ''a'', ''b''], n_pairs = [(''c'', 1), (''a'', 0), (''b'', 0)],
      rng = \<lparr>tape = \<lambda>i. if i = 1 then 2 ^ 52 else 0, pos = p\<rparr>, rand_iter = buf,
      frozen_valid = [0, 1], batch = 2, warnings = []\<rparr>"

section \<open>What the properties speak of\<close>

text \<open>The keys of a column's reverse index, and all the pairs of a result.\<close>

definition index_keys :: "'v matcher \<Rightarrow> string \<Rightarrow> 'v list" where
  "index_keys m c = (case map_of (reverse m) c of None \<Rightarrow> [] | Some mapper \<Rightarrow> map fst mapper)"

definition emitted :: "('k \<times> (nat \<times> nat) list) list \<Rightarrow> (nat \<times> nat) list" where
  "emitted res = concat (map snd res)"

text \<open>
  The doubles a matcher will serve next: what is left of the batch, then what the
  generator gives from its position on.
\<close>

definition upcoming :: "'v matcher \<Rightarrow> nat \<Rightarrow> nat" where
  "upcoming m k =
     (if k < length (rand_iter m) then rand_iter m ! k
      else next_double (tape (rng m) (pos (rng m) + (k - length (rand_iter m)))))"

text \<open>Two matchers that differ at most in the state of the random source.\<close>

definition same_data :: "'v matcher \<Rightarrow> 'v matcher \<Rightarrow> bool" where
  "same_data m m' = (m' = m\<lparr>rng := rng m', rand_iter := rand_iter m'\<rparr>)"

text \<open>
  The matcher after \<open>n\<close> attempts of \<open>_null_sample\<close> in a row that each raised
  \<open>UnpairedException\<close>, if the first \<open>n\<close> attempts do so.
\<close>

fun unpaired_run ::
  "runtime \<Rightarrow> nat \<Rightarrow> 'v matcher \<Rightarrow> string list \<Rightarrow> string list \<Rightarrow> 'v matcher option" where
  "unpaired_run rt 0 m diffby_all diffby_any = Some m"
| "unpaired_run rt (Suc n) m diffby_all diffby_any =
     (case null_sample rt m diffby_all diffby_any of
        (Inl (UnpairedException i), m') \<Rightarrow> unpaired_run rt n m' diffby_all diffby_any
      | _ \<Rightarrow> None)"

text \<open>The errors of the specification checks, by their messages.\<close>

fun is_spec_error :: "error \<Rightarrow> bool" where
  "is_spec_error (ValueError SamebyAnyOne) = True"
| "is_spec_error (ValueError DiffbyAnyOne) = True"
| "is_spec_error (ValueError NotDisjoint) = True"
| "is_spec_error (ValueError NoColumns) = True"
| "is_spec_error (ValueError (MissingColumns cs)) = True"
| "is_spec_error e = False"

text \<open>A frame of two rows of one compound.\<close>

definition one_compound :: "pyval dframe" where
  "one_compound = \<lparr>col_names = [''compound''],
     df_rows = [[Val (PStr ''X'')], [Val (PStr ''X'')]]\<rparr>"

text \<open>
  The cell of row \<open>i\<close> in column \<open>c\<close> of a matcher, the rows that hold the value
  \<open>k\<close> there, and the set the reverse index has for \<open>k\<close>.
\<close>

definition cell_of :: "'v matcher \<Rightarrow> nat \<Rightarrow> string \<Rightarrow> 'v cell" where
  "cell_of m i c = (case map_of (col_to_ix m) c of Some ix \<Rightarrow> vals m ! i ! ix | None \<Rightarrow> NaN)"

definition holders :: "'v matcher \<Rightarrow> string \<Rightarrow> 'v \<Rightarrow> nat list" where
  "holders m c k = filter (\<lambda>i. cell_of m i c = Val k) [0 ..< length (vals m)]"

definition index_group :: "'v matcher \<Rightarrow> string \<Rightarrow> 'v \<Rightarrow> nat list option" where
  "index_group m c k = (case map_of (reverse m) c of None \<Rightarrow> None | Some mapper \<Rightarrow> map_of mapper k)"

text \<open>Whether \<open>clip_list\<close> samples from a group.\<close>

definition oversized :: "nat option \<Rightarrow> nat list \<Rightarrow> bool" where
  "oversized max_size elems = (case max_size of None \<Rightarrow> False | Some ms \<Rightarrow> ms \<noteq> 0 \<and> ms < length elems)"

text \<open>How a group after \<open>clip_list\<close> stands to the group before.\<close>

definition clip_rel :: "nat option \<Rightarrow> 'k \<times> nat list \<Rightarrow> 'k \<times> nat list \<Rightarrow> bool" where
  "clip_rel max_size x y =
     (fst y = fst x \<and>
      (if oversized max_size (snd x) then length (snd y) = the max_size \<and> set (snd y) \<subseteq> set (snd x)
       else snd y = snd x))"

text \<open>
  What holds of the reverse index of column \<open>c\<close> in a matcher constructed with
  \<open>max_size\<close>: the keys are distinct and are the values that some row holds; every
  set is non-empty and holds only rows with the key's value; the sets of two keys are
  disjoint; a row with a null cell is in no set; and when no group was larger than
  \<open>max_size\<close>, every set holds all the rows with the key's value, so that the union of
  the sets is the set of the rows whose cell is not null.
\<close>

definition index_invariant :: "nat option \<Rightarrow> 'v matcher \<Rightarrow> string \<Rightarrow> bool" where
  "index_invariant max_size m c =
     (\<exists>mapper. map_of (reverse m) c = Some mapper
        \<and> distinct (map fst mapper)
        \<and> (\<forall>k. k \<in> set (map fst mapper) \<longleftrightarrow> holders m c k \<noteq> [])
        \<and> (\<forall>k g. (k, g) \<in> set mapper \<longrightarrow> g \<noteq> [] \<and> set g \<subseteq> set (holders m c k))
        \<and> (\<forall>k g k' g'. (k, g) \<in> set mapper \<and> (k', g') \<in> set mapper \<and> k \<noteq> k'
              \<longrightarrow> set g \<inter> set g' = {})
        \<and> \<Union> (set ` snd ` set mapper) \<subseteq> {i. i < length (vals m) \<and> \<not> isna (cell_of m i c)}
        \<and> ((\<forall>k. \<not> oversized max_size (holders m c k))
              \<longrightarrow> (\<forall>k g. (k, g) \<in> set mapper \<longrightarrow> g = holders m c k)
                \<and> \<Union> (set ` snd ` set mapper) = {i. i < length (vals m) \<and> \<not> isna (cell_of m i c)}))"

text \<open>
  Two matchers with the same data that will serve the same doubles, whatever is left of
  their batches and whatever their refill sizes.
\<close>

definition rng_equiv :: "'v matcher \<Rightarrow> 'v matcher \<Rightarrow> bool" where
  "rng_equiv m1 m2 =
     ((\<exists>g r b. m2 = m1\<lparr>rng := g, rand_iter := r, batch := b\<rparr>)
      \<and> (\<forall>k. upcoming m1 k = upcoming m2 k) \<and> 0 < batch m1 \<and> 0 < batch m2)"

text \<open>
  The diffby constraint on a pair: on every diffby-all column the second row's cell
  differs from the first row's, unless the first row's is null; and, when there are
  diffby-any columns, on at least one of them the first row's cell is not null and the
  second row's differs from it.
\<close>

definition satisfies_diffby :: "'v matcher \<Rightarrow> string list \<Rightarrow> string list \<Rightarrow> nat \<Rightarrow> nat \<Rightarrow> bool" where
  "satisfies_diffby m diffby_all diffby_any id1 id2 =
     (list_all (\<lambda>c. isna (cell_of m id1 c) \<or> cell_of m id2 c \<noteq> cell_of m id1 c) diffby_all
      \<and> (diffby_any = []
          \<or> list_ex (\<lambda>c. \<not> isna (cell_of m id1 c) \<and> cell_of m id2 c \<noteq> cell_of m id1 c) diffby_any))"

text \<open>
  An answer to a call is valid when, if it is the pair of a \<open>sample_null_pair\<close> call, the
  pair is of two different rows of the frame and satisfies the call's diffby constraint.
\<close>

fun answer_valid :: "'v matcher \<Rightarrow> call \<Rightarrow> error + 'v answer \<Rightarrow> bool" where
  "answer_valid m (SampleNullPair diffby n_tries) (Inr (NullPair (id1, id2))) =
     (case normalise DiffbyAnyOne diffby of
        Inl e \<Rightarrow> False
      | Inr (diffby_all, diffby_any) \<Rightarrow>
          id1 \<noteq> id2 \<and> id1 < length (vals m) \<and> id2 < length (vals m)
          \<and> satisfies_diffby m diffby_all diffby_any id1 id2)"
| "answer_valid m c r = True"

text \<open>
  A matcher whose reverse index is exact: the set of a value holds all the rows with the
  value, for every column of the matcher.
\<close>

definition exact_index :: "'v matcher \<Rightarrow> bool" where
  "exact_index m =
     (frozen_valid m = [0 ..< length (vals m)]
      \<and> (\<forall>c ix k s. map_of (col_to_ix m) c = Some ix \<and> index_group m c k = Some s
            \<longrightarrow> set s = set (holders m c k)))"

text \<open>
  Two sets of labels share a label that is not null; and a multilabel matcher none of
  whose labels is null.
\<close>

definition share_label :: "'v cell list \<Rightarrow> 'v cell list \<Rightarrow> bool" where
  "share_label a b = list_ex (\<lambda>l. \<not> isna l \<and> l \<in> set b) a"

definition no_null_labels :: "'v matcher_multilabel \<Rightarrow> bool" where
  "no_null_labels mm = list_all (list_all (\<lambda>l. \<not> isna l)) (multilabel_set mm)"

text \<open>\<open>a\<close> stands before \<open>b\<close> in a list.\<close>

definition before :: "nat list \<Rightarrow> nat \<Rightarrow> nat \<Rightarrow> bool" where
  "before xs a b = (\<exists>pre post. xs = pre @ a # post \<and> a \<notin> set pre \<and> b \<in> set post)"

section \<open>Properties\<close>

lemmas init_defs = Matcher_init_def select_columns_def column_def reverse_index_def
  clip_list_def n_combs_def lookup_nat_def choose_two

lemmas pairs_defs = get_all_pairs_def check_spec_def sameby_all_pairs_def apply_sameby_any_def
  get_all_pairs_single_def filter_diffby_def same_value_rows_def set_diff_def

lemma iter_small:
  "iter_ascending_below n rt \<Longrightarrow> list_all (\<lambda>x. x < n) xs \<Longrightarrow> set_iter rt xs = sort (remdups xs)"
  by (simp add: iter_ascending_below_def)

text \<open>
  C2. On the data of scenario A, \<open>get_all_pairs\<close> with sameby "compound" and diffby
  "plate" returns the mapping with the two keys X and Y, in this order, X with the one
  pair (0, 1) and Y with the one pair (2, 3); this for every seed and refill size, on a
  runtime that iterates sets of identifiers below 8 in increasing order, as CPython does.
\<close>

theorem scenario_A_pairs:
  assumes "iter_ascending_below 8 rt"
  shows "\<exists>m. Matcher_init rt b scenario_A [''compound'', ''plate''] seed None = Inr m
           \<and> get_all_pairs rt m (Name ''compound'') (Name ''plate'')
               = Inr [(KVal (PStr ''X''), [(0, 1)]), (KVal (PStr ''Y''), [(2, 3)])]"
  using iter_small [OF assms]
  by (simp add: init_defs scenario_A_def pairs_defs)

theorem scenario_A_pairs_witness:
  "iter_ascending_below 8 ascending
   \<and> (\<exists>m. Matcher_init ascending 1000000 scenario_A [''compound'', ''plate''] 0 None = Inr m
           \<and> get_all_pairs ascending m (Name ''compound'') (Name ''plate'')
               = Inr [(KVal (PStr ''X''), [(0, 1)]), (KVal (PStr ''Y''), [(2, 3)])])"
proof -
  have h: "iter_ascending_below 8 ascending"
    by (simp add: iter_ascending_below_def ascending_def)
  show ?thesis using h scenario_A_pairs [OF h] by simp
qed

subsection \<open>The checks of the specification\<close>

text \<open>
  C1. The claim is that a call whose four column sets overlap is rejected. The source
  tests the intersection of all four sets, so a column named in sameby and in diffby
  passes: on the data of scenario A the call with sameby "compound" and diffby
  "compound" is not rejected and returns the empty mapping.
\<close>

theorem overlap_accepted:
  "\<exists>m. Matcher_init ascending 1000000 scenario_A [''compound'', ''plate''] 0 None = Inr m
        \<and> get_all_pairs ascending m (Name ''compound'') (Name ''compound'') = Inr []"
  by (simp add: init_defs scenario_A_def pairs_defs ascending_def)

text \<open>
  What the first check does reject: exactly the calls in which one column stands in all
  four lists.
\<close>

lemma check_spec_not_disjoint:
  "check_spec m sameby_all sameby_any diffby_all diffby_any = Some (ValueError NotDisjoint)
     \<longleftrightarrow> set sameby_all \<inter> set sameby_any \<inter> set diffby_all \<inter> set diffby_any \<noteq> {}"
  by (auto simp: check_spec_def list_ex_iff)

subsection \<open>The diffby filter on a row of nulls\<close>

text \<open>
  C4. The claim is that the filter never fails on a row that is null in every diffby-any
  column. On such a row the list \<open>mapped\<close> stays empty and \<open>set.intersection(*mapped)\<close>
  raises a \<open>TypeError\<close>: here for row 0 of a frame of two rows, from \<open>_filter_diffby\<close>
  itself and from \<open>get_all_pairs\<close> with sameby "c" and diffby {"any": ["a", "b"]}.
\<close>

theorem null_row_type_error:
  "\<exists>m. Matcher_init ascending 1000000 null_rows [''c'', ''a'', ''b''] 0 None = Inr m
        \<and> filter_diffby m 0 [] [''a'', ''b''] [1] = Inl TypeError
        \<and> get_all_pairs ascending m (Name ''c'') (Dict None (Some [''a'', ''b''])) = Inl TypeError"
  by (simp add: init_defs null_rows_def pairs_defs ascending_def)

subsection \<open>The keys of a single sameby column\<close>

lemma all_groups_keys:
  "all_groups rt m da dn mapper = Inr res \<Longrightarrow>
     list_all (\<lambda>(k, ps). ps \<noteq> [] \<and> k \<in> set (map fst mapper)) res"
proof (induction mapper arbitrary: res)
  case Nil
  then show ?case by simp
next
  case (Cons g gs)
  obtain key rows where g: "g = (key, rows)" by (cases g)
  from Cons.prems g obtain ps rest where
    ps: "group_pairs rt m da dn rows [] (set_iter rt rows) = Inr ps"
    and rest: "all_groups rt m da dn gs = Inr rest"
    and res: "res = (if ps = [] then rest else (key, ps) # rest)"
    by (auto split: sum.splits)
  from Cons.IH [OF rest] have "list_all (\<lambda>(k, ps). ps \<noteq> [] \<and> k \<in> set (map fst (g # gs))) rest"
    by (auto simp: list_all_iff)
  with res g show ?case by (auto simp: list_all_iff)
qed

text \<open>
  C10. When \<open>get_all_pairs\<close> is called with a single column name as sameby and returns,
  every key of the mapping is a key of that column's reverse index and its list of pairs
  is not empty.
\<close>

theorem single_sameby_keys:
  assumes "get_all_pairs rt m (Name c) diffby = Inr res"
  shows "list_all (\<lambda>(k, ps). ps \<noteq> [] \<and> (\<exists>v. k = KVal v \<and> v \<in> set (index_keys m c))) res"
proof -
  from assms obtain da dn where n: "normalise DiffbyAnyOne diffby = Inr (da, dn)"
    by (auto simp: get_all_pairs_def split: sum.splits)
  from assms n obtain pairs where
    p: "get_all_pairs_single rt m c da dn = Inr pairs" and r: "res = map (\<lambda>(k, v). (KVal k, v)) pairs"
    by (auto simp: get_all_pairs_def sameby_all_pairs_def apply_sameby_any_def
        split: sum.splits option.splits if_splits)
  from p obtain mapper where mp: "map_of (reverse m) c = Some mapper"
    and ag: "all_groups rt m da dn mapper = Inr pairs"
    by (auto simp: get_all_pairs_single_def split: option.splits)
  from all_groups_keys [OF ag] mp r show ?thesis
    by (auto simp: list_all_iff index_keys_def)
qed

theorem single_sameby_keys_witness:
  "\<exists>m res. Matcher_init ascending 1000000 scenario_A [''compound'', ''plate''] 0 None = Inr m
     \<and> get_all_pairs ascending m (Name ''compound'') (Name ''plate'') = Inr res
     \<and> res \<noteq> []
     \<and> list_all (\<lambda>(k, ps). ps \<noteq> [] \<and> (\<exists>v. k = KVal v \<and> v \<in> set (index_keys m ''compound''))) res"
proof -
  obtain m where m: "Matcher_init ascending 1000000 scenario_A [''compound'', ''plate''] 0 None = Inr m"
    by (simp add: init_defs scenario_A_def ascending_def)
  have r: "get_all_pairs ascending m (Name ''compound'') (Name ''plate'')
             = Inr [(KVal (PStr ''X''), [(0, 1)]), (KVal (PStr ''Y''), [(2, 3)])]"
    using m by (auto simp add: init_defs scenario_A_def pairs_defs ascending_def)
  from single_sameby_keys [OF r] m r show ?thesis by blast
qed

subsection \<open>Null pairs: the retry loop\<close>

lemma same_value_rows_error:
  "same_value_rows m row c = Inl e \<Longrightarrow> e = KeyError \<or> e = IndexError"
  by (auto simp: same_value_rows_def split: option.splits if_splits cell.splits)

lemma diffby_all_loop_error:
  "diffby_all_loop m row cols valid = Inl e \<Longrightarrow> e = KeyError \<or> e = IndexError"
  by (induction cols arbitrary: valid)
     (auto split: sum.splits option.splits dest: same_value_rows_error)

lemma diffby_any_loop_error:
  "diffby_any_loop m row cols = Inl e \<Longrightarrow> e = KeyError \<or> e = IndexError"
  by (induction cols arbitrary: e)
     (auto split: sum.splits option.splits dest: same_value_rows_error)

lemma filter_diffby_error:
  "filter_diffby m idx da dn valid = Inl e \<Longrightarrow> e = KeyError \<or> e = IndexError \<or> e = TypeError"
  by (auto simp: filter_diffby_def split: if_splits sum.splits list.splits
      dest: diffby_all_loop_error diffby_any_loop_error)

lemma rand_next_error: "rand_next m = (Inl e, m') \<Longrightarrow> e = StopIteration"
  by (auto simp: rand_next_def rng_uniform_def Let_def split: list.splits)

lemma integers_error: "integers m lo hi = (Inl e, m') \<Longrightarrow> e = StopIteration"
  by (auto simp: integers_def split: prod.splits sum.splits dest: rand_next_error)

lemma choice_error: "choice m items = (Inl e, m') \<Longrightarrow> e = StopIteration \<or> e = IndexError"
  by (auto simp: choice_def py_item_def split: prod.splits sum.splits if_splits dest: integers_error)

lemma null_sample_error:
  "null_sample rt m da dn = (Inl e, m') \<Longrightarrow>
     e = StopIteration \<or> e = KeyError \<or> e = IndexError \<or> e = TypeError \<or> (\<exists>i. e = UnpairedException i)"
  by (auto simp: null_sample_def split: prod.splits sum.splits if_splits
      dest: integers_error choice_error filter_diffby_error)

lemma tries_exhausted_iff:
  "tries rt n m da dn = (Inl (ValueError TriesExhausted), m') \<longleftrightarrow> unpaired_run rt n m da dn = Some m'"
proof (induction n arbitrary: m)
  case 0
  then show ?case by auto
next
  case (Suc n)
  show ?case
  proof (cases "null_sample rt m da dn")
    case (Pair out m1)
    show ?thesis
    proof (cases out)
      case (Inl e)
      with Pair null_sample_error [of rt m da dn e m1] Suc.IH [of m1] show ?thesis
        by (cases e) auto
    next
      case (Inr p)
      with Pair show ?thesis by simp
    qed
  qed
qed

lemma tries_first_other:
  "unpaired_run rt k m da dn = Some m1 \<Longrightarrow> k < n \<Longrightarrow> null_sample rt m1 da dn = (out, m2) \<Longrightarrow>
   (\<forall>i. out \<noteq> Inl (UnpairedException i)) \<Longrightarrow> tries rt n m da dn = (out, m2)"
proof (induction k arbitrary: m n)
  case 0
  then obtain n' where "n = Suc n'" by (cases n) auto
  with 0 show ?case by (cases out; auto split: error.splits)
next
  case (Suc k)
  then obtain n' where n: "n = Suc n'" by (cases n) auto
  from Suc.prems(1) obtain i m0 where a: "null_sample rt m da dn = (Inl (UnpairedException i), m0)"
    and b: "unpaired_run rt k m0 da dn = Some m1"
    by (auto split: prod.splits sum.splits error.splits)
  from Suc.IH [OF b _ Suc.prems(3,4), of n'] Suc.prems(2) n a show ?case by simp
qed

lemma tries_never_unpaired: "fst (tries rt n m da dn) \<noteq> Inl (UnpairedException i)"
  by (induction n arbitrary: m) (auto split: prod.splits sum.splits error.splits)

lemma rand_next_upcoming:
  assumes "0 < batch m"
  shows "\<exists>m'. rand_next m = (Inr (upcoming m 0), m') \<and> (\<forall>k. upcoming m' k = upcoming m (Suc k))
           \<and> same_data m m' \<and> batch m' = batch m"
proof (cases "rand_iter m")
  case (Cons v rest)
  then show ?thesis
    by (auto simp: rand_next_def upcoming_def same_data_def)
next
  case Nil
  from assms have u: "[pos (rng m) ..< pos (rng m) + batch m]
      = pos (rng m) # [Suc (pos (rng m)) ..< pos (rng m) + batch m]"
    by (simp add: upt_conv_Cons)
  show ?thesis using Nil assms
    by (auto simp: rand_next_def rng_uniform_def u upcoming_def same_data_def)
qed

lemma integers_upcoming:
  assumes "0 < batch m"
  shows "\<exists>m'. integers m lo hi = (Inr (scaled (upcoming m 0) lo hi), m')
           \<and> (\<forall>k. upcoming m' k = upcoming m (Suc k)) \<and> same_data m m' \<and> batch m' = batch m"
  using rand_next_upcoming [OF assms] by (auto simp: integers_def)

lemma null_sample_unpaired_draw:
  assumes "0 < batch m" and "null_sample rt m da dn = (Inl (UnpairedException i), m')"
  shows "i = scaled (upcoming m 0) 0 (int (length (frozen_valid m)) - 1)
         \<and> (\<forall>k. upcoming m' k = upcoming m (Suc k)) \<and> same_data m m' \<and> batch m' = batch m"
proof -
  from integers_upcoming [OF assms(1), of 0 "int (length (frozen_valid m)) - 1"]
  obtain m1 where i: "integers m 0 (int (length (frozen_valid m)) - 1)
       = (Inr (scaled (upcoming m 0) 0 (int (length (frozen_valid m)) - 1)), m1)"
    and u: "\<forall>k. upcoming m1 k = upcoming m (Suc k)" "same_data m m1" "batch m1 = batch m"
    by auto
  from assms(2) i have "m' = m1 \<and> i = scaled (upcoming m 0) 0 (int (length (frozen_valid m)) - 1)"
    by (auto simp: null_sample_def split: if_splits sum.splits prod.splits
        dest: filter_diffby_error choice_error)
  with u show ?thesis by simp
qed

lemma same_data_trans: "same_data a b \<Longrightarrow> same_data b c \<Longrightarrow> same_data a c"
  by (cases a; cases b; cases c) (auto simp: same_data_def)

lemma same_data_refl: "same_data a a"
  by (simp add: same_data_def)

lemma unpaired_run_draws:
  "0 < batch m \<Longrightarrow> unpaired_run rt k m da dn = Some m' \<Longrightarrow>
     (\<forall>j. upcoming m' j = upcoming m (k + j)) \<and> same_data m m' \<and> batch m' = batch m"
proof (induction k arbitrary: m)
  case 0
  then show ?case by (simp add: same_data_refl)
next
  case (Suc k)
  from Suc.prems(2) obtain i m0 where a: "null_sample rt m da dn = (Inl (UnpairedException i), m0)"
    and b: "unpaired_run rt k m0 da dn = Some m'"
    by (auto split: prod.splits sum.splits error.splits)
  from null_sample_unpaired_draw [OF Suc.prems(1) a]
  have d: "\<forall>k. upcoming m0 k = upcoming m (Suc k)" "same_data m m0" "batch m0 = batch m" by auto
  with Suc.prems(1) have "0 < batch m0" by simp
  from Suc.IH [OF this b] d show ?case by (auto intro: same_data_trans)
qed

lemma check_spec_is_spec_error: "check_spec m sa sn da dn = Some e \<Longrightarrow> is_spec_error e"
  by (auto simp: check_spec_def split: if_splits)

lemma normalise_is_spec_error:
  "normalise msg spec = Inl e \<Longrightarrow> msg = SamebyAnyOne \<or> msg = DiffbyAnyOne \<Longrightarrow> is_spec_error e"
  by (cases spec) (auto split: if_splits)

lemma null_sample_unpaired_iff:
  "null_sample rt m da dn = (Inl (UnpairedException i), m') \<longleftrightarrow>
     integers m 0 (int (length (frozen_valid m)) - 1) = (Inr i, m')
     \<and> 0 \<le> i \<and> nat i \<in> set (frozen_valid m)
     \<and> filter_diffby m' (nat i) da dn (set_diff (frozen_valid m) [nat i]) = Inr []"
  by (auto simp: null_sample_def split: prod.splits sum.splits if_splits
      dest: integers_error choice_error filter_diffby_error)

text \<open>
  The retry loop. An attempt raises \<open>UnpairedException\<close> exactly when the filter
  returns an empty pool for the row it drew (lemma \<open>null_sample_unpaired_iff\<close>). With
  \<open>diffby\<close> normalised to its all and any lists, \<open>sample_null_pair\<close> raises the
  exhaustion error exactly when \<open>n_tries\<close> attempts in a row raised
  \<open>UnpairedException\<close>; when an earlier attempt is the first with another outcome,
  that outcome (a pair, or another exception) is the call's. Every attempt after an
  unpaired one starts from the matcher the failed attempt left, whose next double is the
  one after the double that gave the failed \<open>id1\<close>: the retry draws a fresh \<open>id1\<close>.
  \<open>UnpairedException\<close> itself never leaves the call. The exhaustion error is a
  \<open>ValueError\<close> like the errors of the specification checks, with a message none of
  them has.
\<close>

lemma sample_null_pair_retries:
  assumes "normalise DiffbyAnyOne diffby = Inr (da, dn)"
  shows "(sample_null_pair rt m diffby n = (Inl (ValueError TriesExhausted), m')
            \<longleftrightarrow> unpaired_run rt (nat n) m da dn = Some m')
       \<and> (\<forall>k m1 out m2. k < nat n \<and> unpaired_run rt k m da dn = Some m1
              \<and> null_sample rt m1 da dn = (out, m2) \<and> (\<forall>i. out \<noteq> Inl (UnpairedException i))
            \<longrightarrow> sample_null_pair rt m diffby n = (out, m2))
       \<and> (\<forall>k m1. 0 < batch m \<and> unpaired_run rt k m da dn = Some m1
            \<longrightarrow> (\<forall>j. upcoming m1 j = upcoming m (k + j)) \<and> same_data m m1)
       \<and> (\<forall>i m1. 0 < batch m \<and> null_sample rt m da dn = (Inl (UnpairedException i), m1)
            \<longrightarrow> i = scaled (upcoming m 0) 0 (int (length (frozen_valid m)) - 1))
       \<and> (\<forall>i. fst (sample_null_pair rt m diffby n) \<noteq> Inl (UnpairedException i))
       \<and> (\<forall>e. is_spec_error e \<longrightarrow> e \<noteq> ValueError TriesExhausted)
       \<and> (\<forall>mm sa sn ca cn e. check_spec mm sa sn ca cn = Some e \<longrightarrow> is_spec_error e)
       \<and> (\<forall>spec e. normalise SamebyAnyOne spec = Inl e \<or> normalise DiffbyAnyOne spec = Inl e
            \<longrightarrow> is_spec_error e)"
proof -
  have s: "sample_null_pair rt m diffby n = tries rt (nat n) m da dn"
    using assms by (simp add: sample_null_pair_def)
  have 1: "sample_null_pair rt m diffby n = (Inl (ValueError TriesExhausted), m')
            \<longleftrightarrow> unpaired_run rt (nat n) m da dn = Some m'"
    by (simp add: s tries_exhausted_iff)
  have 2: "\<forall>k m1 out m2. k < nat n \<and> unpaired_run rt k m da dn = Some m1
              \<and> null_sample rt m1 da dn = (out, m2) \<and> (\<forall>i. out \<noteq> Inl (UnpairedException i))
            \<longrightarrow> sample_null_pair rt m diffby n = (out, m2)"
    unfolding s by (blast intro: tries_first_other)
  have 3: "\<forall>k m1. 0 < batch m \<and> unpaired_run rt k m da dn = Some m1
            \<longrightarrow> (\<forall>j. upcoming m1 j = upcoming m (k + j)) \<and> same_data m m1"
    using unpaired_run_draws by blast
  have 4: "\<forall>i m1. 0 < batch m \<and> null_sample rt m da dn = (Inl (UnpairedException i), m1)
            \<longrightarrow> i = scaled (upcoming m 0) 0 (int (length (frozen_valid m)) - 1)"
    using null_sample_unpaired_draw by blast
  have 5: "\<forall>i. fst (sample_null_pair rt m diffby n) \<noteq> Inl (UnpairedException i)"
    by (simp add: s tries_never_unpaired)
  have 6: "\<forall>e. is_spec_error e \<longrightarrow> e \<noteq> ValueError TriesExhausted"
    by auto
  have 7: "\<forall>mm sa sn ca cn e. check_spec (mm :: 'c matcher) sa sn ca cn = Some e \<longrightarrow> is_spec_error e"
    using check_spec_is_spec_error by blast
  have 8: "\<forall>spec e. normalise SamebyAnyOne spec = Inl e \<or> normalise DiffbyAnyOne spec = Inl e
            \<longrightarrow> is_spec_error e"
    using normalise_is_spec_error by blast
  from 1 2 3 4 5 6 7 8 show ?thesis by blast
qed

lemmas draw_defs = sample_null_pair_def null_sample_def integers_def rand_next_def rng_uniform_def
  next_double_def py_int_def scaled_def to_double_def round_nat_def excess_bits.simps choice_def py_item_def filter_diffby_def same_value_rows_def set_diff_def

lemma init_one_compound:
  "Matcher_init ascending 2 one_compound [''compound''] 0 None = Inr (matcher_one_compound 0 [])"
  by (simp add: init_defs one_compound_def ascending_def matcher_one_compound_def)

lemma one_compound_try1:
  "null_sample ascending (matcher_one_compound 0 []) [''compound''] []
     = (Inl (UnpairedException 0), matcher_one_compound 2 [0])"
  by (simp add: matcher_one_compound_def draw_defs ascending_def)

lemma one_compound_try2:
  "null_sample ascending (matcher_one_compound 2 [0]) [''compound''] []
     = (Inl (UnpairedException 0), matcher_one_compound 2 [])"
  by (simp add: matcher_one_compound_def draw_defs ascending_def)

lemma one_compound_try3:
  "null_sample ascending (matcher_one_compound 2 []) [''compound''] []
     = (Inl (UnpairedException 0), matcher_one_compound 4 [0])"
  by (simp add: matcher_one_compound_def draw_defs ascending_def)

lemma one_compound_exhausted:
  "sample_null_pair ascending (matcher_one_compound 0 []) (Name ''compound'') 3
     = (Inl (ValueError TriesExhausted), matcher_one_compound 4 [0])"
  by (simp add: sample_null_pair_def numeral_3_eq_3 one_compound_try1 one_compound_try2
      one_compound_try3)

lemma init_three_rows:
  "Matcher_init half_second 2 three_rows [''compound'', ''plate''] 0 None
     = Inr (matcher_three_rows 0 [])"
  by (simp add: init_defs three_rows_def half_second_def matcher_three_rows_def)

lemma three_rows_try1:
  "null_sample half_second (matcher_three_rows 0 []) [''compound'', ''plate''] []
     = (Inl (UnpairedException 0), matcher_three_rows 2 [2 ^ 52])"
  by (simp add: matcher_three_rows_def draw_defs half_second_def)

lemma three_rows_try2:
  "null_sample half_second (matcher_three_rows 2 [2 ^ 52]) [''compound'', ''plate''] []
     = (Inr (1, 2), matcher_three_rows 4 [0])"
  by (simp add: matcher_three_rows_def draw_defs half_second_def)

lemma sample_null_pair_retries_example:
  "normalise DiffbyAnyOne (Name ''compound'') = Inr ([''compound''], [])
   \<and> Matcher_init ascending 2 one_compound [''compound''] 0 None = Inr (matcher_one_compound 0 [])
   \<and> sample_null_pair ascending (matcher_one_compound 0 []) (Name ''compound'') 3
        = (Inl (ValueError TriesExhausted), matcher_one_compound 4 [0])
   \<and> unpaired_run ascending 3 (matcher_one_compound 0 []) [''compound''] []
        = Some (matcher_one_compound 4 [0])
   \<and> upcoming (matcher_one_compound 4 [0]) 0 = upcoming (matcher_one_compound 0 []) 3
   \<and> Matcher_init half_second 2 three_rows [''compound'', ''plate''] 0 None
        = Inr (matcher_three_rows 0 [])
   \<and> null_sample half_second (matcher_three_rows 0 []) [''compound'', ''plate''] []
        = (Inl (UnpairedException 0), matcher_three_rows 2 [2 ^ 52])
   \<and> sample_null_pair half_second (matcher_three_rows 0 []) (Cols [''compound'', ''plate'']) 5
        = (Inr (1, 2), matcher_three_rows 4 [0])"
proof -
  have n: "normalise DiffbyAnyOne (Name ''compound'') = Inr ([''compound''], [])" by simp
  note t = sample_null_pair_retries [OF n, of ascending "matcher_one_compound 0 []" 3
      "matcher_one_compound 4 [0]"]
  have "nat 3 = 3" by simp
  with t [THEN conjunct1] one_compound_exhausted
  have u: "unpaired_run ascending 3 (matcher_one_compound 0 []) [''compound''] []
             = Some (matcher_one_compound 4 [0])"
    by metis
  have b: "0 < batch (matcher_one_compound 0 [])" by (simp add: matcher_one_compound_def)
  have t3: "\<And>k m1 j. unpaired_run ascending k (matcher_one_compound 0 []) [''compound''] [] = Some m1
             \<Longrightarrow> upcoming m1 j = upcoming (matcher_one_compound 0 []) (k + j)"
    using t [THEN conjunct2, THEN conjunct2, THEN conjunct1] b by blast
  from t3 [OF u, of 0]
  have d: "upcoming (matcher_one_compound 4 [0]) 0 = upcoming (matcher_one_compound 0 []) 3"
    by simp
  have n2: "normalise DiffbyAnyOne (Cols [''compound'', ''plate'']) = Inr ([''compound'', ''plate''], [])"
    by simp
  have u1: "unpaired_run half_second 1 (matcher_three_rows 0 []) [''compound'', ''plate''] []
              = Some (matcher_three_rows 2 [2 ^ 52])"
    using three_rows_try1 by simp
  have k: "(1::nat) < nat 5" by simp
  have o: "\<forall>i. (Inr (1, 2) :: error + nat \<times> nat) \<noteq> Inl (UnpairedException i)" by simp
  from sample_null_pair_retries [OF n2, of half_second "matcher_three_rows 0 []" 5,
      THEN conjunct2, THEN conjunct1] k u1 three_rows_try2 o
  have r: "sample_null_pair half_second (matcher_three_rows 0 []) (Cols [''compound'', ''plate'']) 5
             = (Inr (1, 2), matcher_three_rows 4 [0])"
    by blast
  from n init_one_compound one_compound_exhausted u d init_three_rows three_rows_try1 r
  show ?thesis by blast
qed

lemma init_null_rows:
  "Matcher_init half_second 2 null_rows [''c'', ''a'', ''b''] 0 None = Inr (matcher_null_rows 0 [])"
  by (simp add: init_defs null_rows_def half_second_def matcher_null_rows_def)

lemma null_rows_try1:
  "null_sample half_second (matcher_null_rows 0 []) [] [''a'', ''b'']
     = (Inl TypeError, matcher_null_rows 2 [2 ^ 52])"
  by (simp add: matcher_null_rows_def draw_defs half_second_def)

lemma null_rows_try2:
  "null_sample half_second (matcher_null_rows 2 [2 ^ 52]) [] [''a'', ''b'']
     = (Inr (1, 0), matcher_null_rows 4 [0])"
  by (simp add: matcher_null_rows_def draw_defs half_second_def)

lemma null_rows_pool:
  "filter_diffby (matcher_null_rows 0 []) 1 [] [''a'', ''b''] [0] = Inr [0]"
  by (simp add: matcher_null_rows_def draw_defs)

text \<open>
  C6. The claim is that a single unlucky draw of \<open>id1\<close> never aborts the call. On
  \<open>null_rows\<close>, \<open>sample_null_pair\<close> with diffby {"any": ["a", "b"]} and five tries
  draws row 0 first, when the first double is below 1/2. Row 0 is null in both columns,
  so \<open>_filter_diffby\<close> raises a \<open>TypeError\<close>, which the loop does not catch: the
  call ends at its first attempt. Row 1 has the partner row 0, and the attempt that
  would have followed, with the next double 1/2, draws row 1 and returns the pair
  \<open>(1, 0)\<close>.
\<close>

theorem unlucky_draw_type_error:
  "Matcher_init half_second 2 null_rows [''c'', ''a'', ''b''] 0 None = Inr (matcher_null_rows 0 [])
   \<and> sample_null_pair half_second (matcher_null_rows 0 []) (Dict None (Some [''a'', ''b''])) 5
        = (Inl TypeError, matcher_null_rows 2 [2 ^ 52])
   \<and> filter_diffby (matcher_null_rows 0 []) 1 [] [''a'', ''b''] [0] = Inr [0]
   \<and> null_sample half_second (matcher_null_rows 2 [2 ^ 52]) [] [''a'', ''b'']
        = (Inr (1, 0), matcher_null_rows 4 [0])"
proof -
  have u: "unpaired_run half_second 0 (matcher_null_rows 0 []) [] [''a'', ''b'']
             = Some (matcher_null_rows 0 [])"
    by simp
  have k: "(0::nat) < nat 5" by simp
  have o: "\<forall>i. (Inl TypeError :: error + nat \<times> nat) \<noteq> Inl (UnpairedException i)" by simp
  from tries_first_other [OF u k null_rows_try1 o]
  have s: "sample_null_pair half_second (matcher_null_rows 0 []) (Dict None (Some [''a'', ''b''])) 5
        = (Inl TypeError, matcher_null_rows 2 [2 ^ 52])"
    by (simp add: sample_null_pair_def)
  from init_null_rows s null_rows_pool null_rows_try2 show ?thesis by simp
qed

subsection \<open>The reverse index of a constructed matcher\<close>

lemma set_vals_of: "set (vals_of col) = {v. Val v \<in> set col}"
  by (induction col rule: vals_of.induct) auto

lemma reverse_index_keys: "map fst (reverse_index col) = sort (remdups (vals_of col))"
  by (simp add: reverse_index_def comp_def)

lemma reverse_index_distinct: "distinct (map fst (reverse_index col))"
  by (simp add: reverse_index_keys)

lemma reverse_index_entry:
  "(k, g) \<in> set (reverse_index col) \<longleftrightarrow>
     Val k \<in> set col \<and> g = filter (\<lambda>i. col ! i = Val k) [0 ..< length col]"
  by (auto simp: reverse_index_def set_vals_of)

lemma clip_list_cases:
  assumes "clip_list max_size elems s = (elems', s')"
  shows "if oversized max_size elems
         then length elems' = the max_size \<and> set elems' \<subseteq> set elems
              \<and> snd s' = snd s @ [(the max_size, length elems)]
              \<and> pos (fst s') = pos (fst s) + the max_size
         else elems' = elems \<and> s' = s"
proof (cases "oversized max_size elems")
  case False
  with assms show ?thesis
    by (auto simp: clip_list_def oversized_def split: option.splits if_splits)
next
  case True
  then obtain ms where ms: "max_size = Some ms" "ms \<noteq> 0" "ms < length elems"
    by (auto simp: oversized_def split: option.splits)
  then have "elems \<noteq> []" by auto
  then have "\<And>w. elems ! (w mod length elems) \<in> set elems" by simp
  with assms ms True show ?thesis
    by (auto simp: clip_list_def rng_choice_def split: prod.splits)
qed

lemma clip_groups_rel:
  "clip_groups max_size gs s = (gs', s') \<Longrightarrow>
     list_all2 (clip_rel max_size) gs gs'
     \<and> snd s' = snd s @ map (\<lambda>x. (the max_size, length (snd x))) (filter (\<lambda>x. oversized max_size (snd x)) gs)"
proof (induction gs arbitrary: s gs' s')
  case Nil
  then show ?case by simp
next
  case (Cons x gs)
  obtain k elems where x: "x = (k, elems)" by (cases x)
  obtain elems' s1 where c: "clip_list max_size elems s = (elems', s1)" by (cases "clip_list max_size elems s")
  obtain gs1 s2 where r: "clip_groups max_size gs s1 = (gs1, s2)" by (cases "clip_groups max_size gs s1")
  from Cons.prems x c r have e: "gs' = (k, elems') # gs1" "s' = s2" by auto
  from clip_list_cases [OF c] Cons.IH [OF r] x e show ?case
    by (auto simp: clip_rel_def split: if_splits)
qed

lemma build_mappers_rel:
  "build_mappers max_size df cs s = (mps, s') \<Longrightarrow>
     list_all2 (\<lambda>c y. fst y = c \<and> list_all2 (clip_rel max_size) (reverse_index (column df c)) (snd y)) cs mps
     \<and> snd s' = snd s @ concat (map (\<lambda>c. map (\<lambda>x. (the max_size, length (snd x)))
                         (filter (\<lambda>x. oversized max_size (snd x)) (reverse_index (column df c)))) cs)"
proof (induction cs arbitrary: s mps s')
  case Nil
  then show ?case by simp
next
  case (Cons c cs)
  obtain mp s1 where a: "clip_groups max_size (reverse_index (column df c)) s = (mp, s1)"
    by (cases "clip_groups max_size (reverse_index (column df c)) s")
  obtain rest s2 where r: "build_mappers max_size df cs s1 = (rest, s2)"
    by (cases "build_mappers max_size df cs s1")
  from Cons.prems a r have e: "mps = (c, mp) # rest" "s' = s2" by auto
  from clip_groups_rel [OF a] Cons.IH [OF r] e show ?case by auto
qed

lemma map_of_zip_upt:
  "map_of (zip cs [n ..< n + length cs]) c = map_option (\<lambda>i. n + i) (col_pos cs c)"
proof (induction cs arbitrary: n)
  case Nil
  then show ?case by simp
next
  case (Cons x cs)
  have "n < n + length (x # cs)" by simp
  from upt_conv_Cons [OF this]
  have u: "[n ..< n + length (x # cs)] = n # [Suc n ..< Suc n + length cs]"
    by simp
  show ?case unfolding u using Cons.IH [of "Suc n"]
    by (auto simp del: upt_Suc simp: option.map_comp comp_def)
qed

lemma map_of_zip_col_pos: "map_of (zip cs [0 ..< length cs]) c = col_pos cs c"
  using map_of_zip_upt [of cs 0 c] by (simp add: option.map_ident)

lemma col_pos_Some: "c \<in> set cs \<Longrightarrow> \<exists>i. col_pos cs c = Some i \<and> i < length cs \<and> cs ! i = c"
  by (induction cs) auto

lemma list_all2_map_of:
  "list_all2 (\<lambda>c y. fst y = c \<and> P c (snd y)) cs mps \<Longrightarrow> c \<in> set cs \<Longrightarrow>
     \<exists>mp. map_of mps c = Some mp \<and> P c mp"
proof (induction cs mps rule: list_all2_induct)
  case Nil
  then show ?case by simp
next
  case (Cons x xs y ys)
  then show ?case by (cases y) auto
qed

lemma Matcher_init_fields:
  assumes "Matcher_init rt b df cols seed max_size = Inr m"
  shows "columns m = cols \<and> col_to_ix m = zip cols [0 ..< length cols] \<and> rand_iter m = []
       \<and> frozen_valid m = [0 ..< length (vals m)] \<and> batch m = b
       \<and> list_all (\<lambda>r. length r = length cols) (vals m)
       \<and> (\<exists>mps s'. build_mappers max_size \<lparr>col_names = cols, df_rows = vals m\<rparr> cols
                       (\<lparr>tape = default_rng rt seed, pos = 0\<rparr>, []) = (mps, s')
              \<and> reverse m = map (\<lambda>(name, mapper). (name, map (\<lambda>(k, x). (k, remdups x)) mapper)) mps
              \<and> warnings m = snd s' \<and> rng m = fst s')"
proof -
  from assms obtain df' where s: "select_columns df cols = Inr df'"
    by (auto simp: Matcher_init_def split: sum.splits)
  then have d: "col_names df' = cols" "list_all (\<lambda>r. length r = length cols) (df_rows df')"
    by (auto simp: select_columns_def list_all_iff split: if_splits)
  then have e: "df' = \<lparr>col_names = cols, df_rows = df_rows df'\<rparr>" by (cases df') simp
  obtain mps g lg where bm: "build_mappers max_size df' cols (\<lparr>tape = default_rng rt seed, pos = 0\<rparr>, [])
      = (mps, g, lg)"
    by (cases "build_mappers max_size df' cols (\<lparr>tape = default_rng rt seed, pos = 0\<rparr>, [])") auto
  from assms s bm d(1) have v: "vals m = df_rows df'" and rest:
    "columns m = cols" "col_to_ix m = zip cols [0 ..< length cols]" "rand_iter m = []"
    "frozen_valid m = [0 ..< length (df_rows df')]" "batch m = b"
    "reverse m = map (\<lambda>(name, mapper). (name, map (\<lambda>(k, x). (k, remdups x)) mapper)) mps"
    "warnings m = lg" "rng m = g"
    by (auto simp: Matcher_init_def Let_def)
  from bm e v have "build_mappers max_size \<lparr>col_names = cols, df_rows = vals m\<rparr> cols
                       (\<lparr>tape = default_rng rt seed, pos = 0\<rparr>, []) = (mps, g, lg)"
    by simp
  with rest v d(2) show ?thesis by auto
qed

lemma column_selected:
  assumes "c \<in> set cols"
  shows "\<exists>i. map_of (zip cols [0 ..< length cols]) c = Some i
           \<and> column \<lparr>col_names = cols, df_rows = rs\<rparr> c = map (\<lambda>r. r ! i) rs"
  using col_pos_Some [OF assms] by (auto simp: column_def map_of_zip_col_pos)

lemma holders_column:
  assumes "Matcher_init rt b df cols seed max_size = Inr m" and "c \<in> set cols"
  shows "filter (\<lambda>i. column \<lparr>col_names = cols, df_rows = vals m\<rparr> c ! i = Val k)
           [0 ..< length (column \<lparr>col_names = cols, df_rows = vals m\<rparr> c)] = holders m c k"
    and "Val k \<in> set (column \<lparr>col_names = cols, df_rows = vals m\<rparr> c) \<longleftrightarrow> holders m c k \<noteq> []"
proof -
  from Matcher_init_fields [OF assms(1)] have ci: "col_to_ix m = zip cols [0 ..< length cols]" by simp
  from column_selected [OF assms(2), of "vals m"] obtain i where
    i: "map_of (zip cols [0 ..< length cols]) c = Some i"
    and col: "column \<lparr>col_names = cols, df_rows = vals m\<rparr> c = map (\<lambda>r. r ! i) (vals m)"
    by auto
  have cell: "\<And>r. cell_of m r c = vals m ! r ! i" by (simp add: cell_of_def ci i)
  show 1: "filter (\<lambda>i. column \<lparr>col_names = cols, df_rows = vals m\<rparr> c ! i = Val k)
           [0 ..< length (column \<lparr>col_names = cols, df_rows = vals m\<rparr> c)] = holders m c k"
    unfolding holders_def col by (rule filter_cong) (auto simp: cell)
  show "Val k \<in> set (column \<lparr>col_names = cols, df_rows = vals m\<rparr> c) \<longleftrightarrow> holders m c k \<noteq> []"
    unfolding 1 [symmetric] by (auto simp: filter_empty_conv in_set_conv_nth)
qed

lemma list_all2_right:
  "list_all2 R xs ys \<Longrightarrow> y \<in> set ys \<Longrightarrow> \<exists>x\<in>set xs. R x y"
  by (induction xs ys rule: list_all2_induct) auto

lemma clip_rel_keys: "list_all2 (clip_rel max_size) xs ys \<Longrightarrow> map fst ys = map fst xs"
  by (induction xs ys rule: list_all2_induct) (auto simp: clip_rel_def)

lemma distinct_holders: "distinct (holders m c k)"
  by (simp add: holders_def)

lemma init_index:
  assumes init: "Matcher_init rt b df cols seed max_size = Inr m" and c: "c \<in> set cols"
  shows "\<exists>mapper. map_of (reverse m) c = Some mapper
     \<and> distinct (map fst mapper)
     \<and> (\<forall>k. k \<in> set (map fst mapper) \<longleftrightarrow> holders m c k \<noteq> [])
     \<and> (\<forall>k g. (k, g) \<in> set mapper \<longrightarrow> g \<noteq> [] \<and> distinct g \<and> set g \<subseteq> set (holders m c k)
            \<and> (if oversized max_size (holders m c k) then length g \<le> the max_size
                else g = holders m c k))"
proof -
  let ?df = "\<lparr>col_names = cols, df_rows = vals m\<rparr>"
  let ?ri = "reverse_index (column ?df c)"
  from Matcher_init_fields [OF init] obtain mps s' where
    bm: "build_mappers max_size ?df cols (\<lparr>tape = default_rng rt seed, pos = 0\<rparr>, []) = (mps, s')"
    and rv: "reverse m = map (\<lambda>(name, mapper). (name, map (\<lambda>(k, x). (k, remdups x)) mapper)) mps"
    by auto
  from build_mappers_rel [OF bm]
  have "list_all2 (\<lambda>c y. fst y = c \<and> list_all2 (clip_rel max_size) (reverse_index (column ?df c)) (snd y)) cols mps"
    by simp
  from list_all2_map_of [of "\<lambda>c mp. list_all2 (clip_rel max_size) (reverse_index (column ?df c)) mp", OF this c]
  obtain mp where mp: "map_of mps c = Some mp" and rel: "list_all2 (clip_rel max_size) ?ri mp"
    by auto
  let ?mapper = "map (\<lambda>(k, x). (k, remdups x)) mp"
  have 1: "map_of (reverse m) c = Some ?mapper"
    by (simp add: rv map_of_map mp)
  have keys: "map fst ?mapper = map fst ?ri"
    using clip_rel_keys [OF rel] by (simp add: comp_def case_prod_unfold)
  have 2: "distinct (map fst ?mapper)" by (simp only: keys reverse_index_distinct)
  have 3: "\<forall>k. k \<in> set (map fst ?mapper) \<longleftrightarrow> holders m c k \<noteq> []"
    unfolding keys reverse_index_keys
    using holders_column(2) [OF init c] by (simp add: set_vals_of)
  have 4: "\<forall>k g. (k, g) \<in> set ?mapper \<longrightarrow> g \<noteq> [] \<and> distinct g \<and> set g \<subseteq> set (holders m c k)
            \<and> (if oversized max_size (holders m c k) then length g \<le> the max_size
                else g = holders m c k)"
  proof (intro allI impI)
    fix k g
    assume "(k, g) \<in> set ?mapper"
    then obtain g' where g': "(k, g') \<in> set mp" and g: "g = remdups g'" by auto
    from list_all2_right [OF rel g'] obtain x where x: "x \<in> set ?ri" and r: "clip_rel max_size x (k, g')"
      by auto
    from r have fx: "fst x = k" by (simp add: clip_rel_def)
    with x have "(k, snd x) \<in> set ?ri" by (metis prod.collapse)
    then have h: "snd x = holders m c k" and ne: "holders m c k \<noteq> []"
      using holders_column [OF init c, of k] by (auto simp: reverse_index_entry)
    show "g \<noteq> [] \<and> distinct g \<and> set g \<subseteq> set (holders m c k)
            \<and> (if oversized max_size (holders m c k) then length g \<le> the max_size
                else g = holders m c k)"
    proof (cases "oversized max_size (holders m c k)")
      case True
      with r h have l: "length g' = the max_size" and sub: "set g' \<subseteq> set (holders m c k)"
        by (auto simp: clip_rel_def)
      from True have "the max_size \<noteq> 0" by (auto simp: oversized_def split: option.splits)
      with l have "g' \<noteq> []" by auto
      moreover have "length (remdups g') \<le> length g'" by (rule length_remdups_leq)
      ultimately show ?thesis using True l sub g by auto
    next
      case False
      with r h have "g' = holders m c k" by (auto simp: clip_rel_def)
      with False ne g show ?thesis by (simp add: distinct_holders distinct_remdups_id)
    qed
  qed
  from 1 2 3 4 show ?thesis by blast
qed

lemma holders_cell: "i \<in> set (holders m c k) \<longleftrightarrow> i < length (vals m) \<and> cell_of m i c = Val k"
  by (auto simp: holders_def)

lemma not_isna_iff: "\<not> isna x \<longleftrightarrow> (\<exists>k. x = Val k)"
  by (cases x) auto

text \<open>
  C9, as the code has it. For every column of a constructed matcher the reverse index maps
  each distinct value that is not null to a non-empty set of rows holding it, and these
  sets are pairwise disjoint. A row whose cell is null is in no set (pandas leaves null
  keys out of the groups). When no group was larger than \<open>max_size\<close> (or none was
  given), each set holds all the rows with its value and the union of the sets is the set
  of the rows whose cell in the column is not null.
\<close>

theorem reverse_index_invariant:
  assumes init: "Matcher_init rt b df cols seed max_size = Inr m" and c: "c \<in> set cols"
  shows "index_invariant max_size m c"
proof -
  from init_index [OF init c] obtain mapper where
    1: "map_of (reverse m) c = Some mapper" and 2: "distinct (map fst mapper)"
    and 3: "\<forall>k. k \<in> set (map fst mapper) \<longleftrightarrow> holders m c k \<noteq> []"
    and 4: "\<forall>k g. (k, g) \<in> set mapper \<longrightarrow> g \<noteq> [] \<and> distinct g \<and> set g \<subseteq> set (holders m c k)
            \<and> (if oversized max_size (holders m c k) then length g \<le> the max_size
                else g = holders m c k)"
    by blast
  have 5: "\<forall>k g k' g'. (k, g) \<in> set mapper \<and> (k', g') \<in> set mapper \<and> k \<noteq> k'
              \<longrightarrow> set g \<inter> set g' = {}"
  proof (intro allI impI)
    fix k g k' g'
    assume a: "(k, g) \<in> set mapper \<and> (k', g') \<in> set mapper \<and> k \<noteq> k'"
    with 4 have "set g \<subseteq> set (holders m c k)" "set g' \<subseteq> set (holders m c k')" by blast+
    moreover from a have "set (holders m c k) \<inter> set (holders m c k') = {}"
      by (auto simp: holders_cell)
    ultimately show "set g \<inter> set g' = {}" by blast
  qed
  have 6: "\<Union> (set ` snd ` set mapper) \<subseteq> {i. i < length (vals m) \<and> \<not> isna (cell_of m i c)}"
  proof
    fix i assume "i \<in> \<Union> (set ` snd ` set mapper)"
    then obtain k g where "(k, g) \<in> set mapper" "i \<in> set g" by auto
    with 4 have "i \<in> set (holders m c k)" by blast
    then show "i \<in> {i. i < length (vals m) \<and> \<not> isna (cell_of m i c)}"
      by (auto simp: holders_cell)
  qed
  have 7: "(\<forall>k. \<not> oversized max_size (holders m c k))
              \<longrightarrow> (\<forall>k g. (k, g) \<in> set mapper \<longrightarrow> g = holders m c k)
                \<and> \<Union> (set ` snd ` set mapper) = {i. i < length (vals m) \<and> \<not> isna (cell_of m i c)}"
  proof (intro impI conjI)
    assume no: "\<forall>k. \<not> oversized max_size (holders m c k)"
    with 4 show e: "\<forall>k g. (k, g) \<in> set mapper \<longrightarrow> g = holders m c k" by auto
    have "{i. i < length (vals m) \<and> \<not> isna (cell_of m i c)} \<subseteq> \<Union> (set ` snd ` set mapper)"
    proof
      fix i assume "i \<in> {i. i < length (vals m) \<and> \<not> isna (cell_of m i c)}"
      then obtain k where i: "i < length (vals m)" "cell_of m i c = Val k"
        by (auto simp: not_isna_iff)
      then have h: "i \<in> set (holders m c k)" by (simp add: holders_cell)
      then have "holders m c k \<noteq> []" by auto
      with 3 obtain g where g: "(k, g) \<in> set mapper" by force
      with e have "g = holders m c k" by blast
      with h g show "i \<in> \<Union> (set ` snd ` set mapper)" by force
    qed
    with 6 show "\<Union> (set ` snd ` set mapper) = {i. i < length (vals m) \<and> \<not> isna (cell_of m i c)}"
      by blast
  qed
  from 4 have g4: "\<forall>k g. (k, g) \<in> set mapper \<longrightarrow> g \<noteq> [] \<and> set g \<subseteq> set (holders m c k)" by blast
  show ?thesis unfolding index_invariant_def
    using 1 2 3 g4 5 6 7 by blast
qed

lemma init_scenario_A:
  "Matcher_init ascending 1000000 scenario_A [''compound'', ''plate''] 0 None = Inr
     \<lparr>vals = [[Val (PStr ''X''), Val (PInt 1)], [Val (PStr ''X''), Val (PInt 2)],
              [Val (PStr ''Y''), Val (PInt 1)], [Val (PStr ''Y''), Val (PInt 2)]],
      reverse = [(''compound'', [(PStr ''X'', [0, 1]), (PStr ''Y'', [2, 3])]),
                 (''plate'', [(PInt 1, [0, 2]), (PInt 2, [1, 3])])],
      col_order = [(''compound'', 0), (''plate'', 1)],
      col_to_ix = [(''compound'', 0), (''plate'', 1)],
      columns = [''compound'', ''plate''], n_pairs = [(''compound'', 2), (''plate'', 2)],
      rng = \<lparr>tape = \<lambda>i. 0, pos = 0\<rparr>, rand_iter = [],
      frozen_valid = [0, 1, 2, 3], batch = 1000000, warnings = []\<rparr>"
  by (simp add: init_defs scenario_A_def ascending_def)

theorem reverse_index_invariant_witness:
  "\<exists>m. Matcher_init ascending 1000000 scenario_A [''compound'', ''plate''] 0 None = Inr m
      \<and> ''plate'' \<in> set [''compound'', ''plate'']
      \<and> map_of (reverse m) ''plate'' = Some [(PInt 1, [0, 2]), (PInt 2, [1, 3])]
      \<and> index_invariant None m ''plate''"
  using reverse_index_invariant [OF init_scenario_A, of "''plate''"] init_scenario_A
  by simp

text \<open>
  C9 as stated fails: in the frame \<open>null_rows\<close> row 0 is null in column a and is in none
  of the sets of that column's reverse index.
\<close>

theorem reverse_index_null_row:
  "\<exists>m mapper. Matcher_init ascending 1000000 null_rows [''c'', ''a'', ''b''] 0 None = Inr m
      \<and> map_of (reverse m) ''a'' = Some mapper
      \<and> 0 < length (vals m) \<and> 0 \<notin> \<Union> (set ` snd ` set mapper)"
  by (simp add: init_defs null_rows_def ascending_def)

subsection \<open>Clipping of large groups\<close>





lemma init_three_x:
  "Matcher_init ascending 2 three_x [''compound''] 0 (Some 2) = Inr matcher_three_x"
  by (simp add: init_defs three_x_def ascending_def rng_choice_def matcher_three_x_def)



subsection \<open>The random source and the refill size\<close>

lemma same_value_rows_data [simp]:
  "same_value_rows (m\<lparr>rng := g, rand_iter := r, batch := b\<rparr>) = same_value_rows m"
  by (simp add: same_value_rows_def fun_eq_iff cong: option.case_cong sum.case_cong cell.case_cong list.case_cong if_cong)

lemma diffby_all_loop_data [simp]:
  "diffby_all_loop (m\<lparr>rng := g, rand_iter := r, batch := b\<rparr>) row cols valid
     = diffby_all_loop m row cols valid"
  by (induction cols arbitrary: valid) (simp_all cong: option.case_cong sum.case_cong cell.case_cong list.case_cong if_cong)

lemma diffby_any_loop_data [simp]:
  "diffby_any_loop (m\<lparr>rng := g, rand_iter := r, batch := b\<rparr>) row cols = diffby_any_loop m row cols"
  by (induction cols) (simp_all cong: option.case_cong sum.case_cong cell.case_cong list.case_cong if_cong)

lemma filter_diffby_data [simp]:
  "filter_diffby (m\<lparr>rng := g, rand_iter := r, batch := b\<rparr>) = filter_diffby m"
  by (simp add: filter_diffby_def fun_eq_iff cong: option.case_cong sum.case_cong cell.case_cong list.case_cong if_cong)

lemma group_pairs_data [simp]:
  "group_pairs rt (m\<lparr>rng := g, rand_iter := r, batch := b\<rparr>) da dn rows processed rest
     = group_pairs rt m da dn rows processed rest"
  by (induction rest arbitrary: processed) (simp_all cong: option.case_cong sum.case_cong cell.case_cong list.case_cong if_cong)

lemma all_groups_data [simp]:
  "all_groups rt (m\<lparr>rng := g, rand_iter := r, batch := b\<rparr>) da dn mapper = all_groups rt m da dn mapper"
  by (induction mapper) (auto cong: option.case_cong sum.case_cong cell.case_cong list.case_cong if_cong)

lemma get_all_pairs_single_data [simp]:
  "get_all_pairs_single rt (m\<lparr>rng := g, rand_iter := r, batch := b\<rparr>) = get_all_pairs_single rt m"
  by (simp add: get_all_pairs_single_def fun_eq_iff cong: option.case_cong sum.case_cong cell.case_cong list.case_cong if_cong)

lemma col_indices_data [simp]:
  "col_indices (m\<lparr>rng := g, rand_iter := r, batch := b\<rparr>) cols = col_indices m cols"
  by (induction cols) (simp_all cong: option.case_cong sum.case_cong cell.case_cong list.case_cong if_cong)

lemma filter_pairs_by_condition_data [simp]:
  "filter_pairs_by_condition (m\<lparr>rng := g, rand_iter := r, batch := b\<rparr>) = filter_pairs_by_condition m"
  by (simp add: filter_pairs_by_condition_def in_range_def take_cells_def fun_eq_iff cong: option.case_cong sum.case_cong cell.case_cong list.case_cong if_cong)

lemma only_diffby_all_data [simp]:
  "only_diffby_all rt (m\<lparr>rng := g, rand_iter := r, batch := b\<rparr>) = only_diffby_all rt m"
  by (simp add: only_diffby_all_def sorted_by_order_def fun_eq_iff cong: option.case_cong sum.case_cong cell.case_cong list.case_cong if_cong)

lemma full_pairs_of_columns_data [simp]:
  "full_pairs_of_columns rt (m\<lparr>rng := g, rand_iter := r, batch := b\<rparr>) cols = full_pairs_of_columns rt m cols"
  by (induction cols) (simp_all cong: option.case_cong sum.case_cong cell.case_cong list.case_cong if_cong)

lemma only_diffby_any_data [simp]:
  "only_diffby_any rt (m\<lparr>rng := g, rand_iter := r, batch := b\<rparr>) = only_diffby_any rt m"
  by (simp add: only_diffby_any_def sorted_by_order_def fun_eq_iff cong: option.case_cong sum.case_cong cell.case_cong list.case_cong if_cong)

lemma only_diffby_all_any_data [simp]:
  "only_diffby_all_any rt (m\<lparr>rng := g, rand_iter := r, batch := b\<rparr>) = only_diffby_all_any rt m"
  by (simp add: only_diffby_all_any_def fun_eq_iff cong: option.case_cong sum.case_cong cell.case_cong list.case_cong if_cong)

lemma composed_step_data [simp]:
  "composed_step (m\<lparr>rng := g, rand_iter := r, batch := b\<rparr>) = composed_step m"
  by (simp add: composed_step_def take_cells_def fun_eq_iff cong: option.case_cong sum.case_cong cell.case_cong list.case_cong if_cong)

lemma composed_pairs_data [simp]:
  "composed_pairs rt (m\<lparr>rng := g, rand_iter := r, batch := b\<rparr>) = composed_pairs rt m"
  by (simp add: composed_pairs_def sorted_by_order_def in_range_def fun_eq_iff cong: option.case_cong sum.case_cong cell.case_cong list.case_cong if_cong)

lemma any_first_pairs_data [simp]:
  "any_first_pairs rt (m\<lparr>rng := g, rand_iter := r, batch := b\<rparr>) cols da dn = any_first_pairs rt m cols da dn"
  by (induction cols) (simp_all cong: option.case_cong sum.case_cong cell.case_cong list.case_cong if_cong)

lemma apply_sameby_any_data [simp]:
  "apply_sameby_any rt (m\<lparr>rng := g, rand_iter := r, batch := b\<rparr>) = apply_sameby_any rt m"
  by (simp add: apply_sameby_any_def fun_eq_iff cong: option.case_cong sum.case_cong cell.case_cong list.case_cong if_cong)

lemma sameby_all_pairs_data [simp]:
  "sameby_all_pairs rt (m\<lparr>rng := g, rand_iter := r, batch := b\<rparr>) = sameby_all_pairs rt m"
  by (simp add: sameby_all_pairs_def fun_eq_iff cong: option.case_cong sum.case_cong cell.case_cong list.case_cong if_cong)

lemma check_spec_data [simp]:
  "check_spec (m\<lparr>rng := g, rand_iter := r, batch := b\<rparr>) = check_spec m"
  by (simp add: check_spec_def fun_eq_iff cong: option.case_cong sum.case_cong cell.case_cong list.case_cong if_cong)

lemma get_all_pairs_data [simp]:
  "get_all_pairs rt (m\<lparr>rng := g, rand_iter := r, batch := b\<rparr>) = get_all_pairs rt m"
  by (simp add: get_all_pairs_def fun_eq_iff cong: option.case_cong sum.case_cong cell.case_cong list.case_cong if_cong)

lemma rng_equiv_data:
  "rng_equiv m1 m2 \<Longrightarrow> get_all_pairs rt m2 = get_all_pairs rt m1 \<and> filter_diffby m2 = filter_diffby m1
     \<and> frozen_valid m2 = frozen_valid m1"
  by (auto simp: rng_equiv_def)

lemma rng_equiv_step:
  assumes "rng_equiv m1 m2" and "same_data m1 m1'" and "same_data m2 m2'"
    and "batch m1' = batch m1" and "batch m2' = batch m2"
    and "\<forall>k. upcoming m1' k = upcoming m1 (Suc k)" and "\<forall>k. upcoming m2' k = upcoming m2 (Suc k)"
  shows "rng_equiv m1' m2'"
proof -
  from assms(1) obtain g r b where "m2 = m1\<lparr>rng := g, rand_iter := r, batch := b\<rparr>"
    by (auto simp: rng_equiv_def)
  with assms(2,3) have "m2' = m1'\<lparr>rng := rng m2', rand_iter := rand_iter m2', batch := batch m2'\<rparr>"
    by (cases m1; cases m1'; cases m2') (auto simp: same_data_def)
  with assms show ?thesis by (auto simp: rng_equiv_def)
qed

lemma integers_equiv:
  assumes "rng_equiv m1 m2"
  shows "\<exists>v m1' m2'. integers m1 lo hi = (Inr v, m1') \<and> integers m2 lo hi = (Inr v, m2')
           \<and> rng_equiv m1' m2' \<and> same_data m1 m1'"
proof -
  from assms have b: "0 < batch m1" "0 < batch m2" and u: "upcoming m1 0 = upcoming m2 0"
    by (auto simp: rng_equiv_def)
  from integers_upcoming [OF b(1), of lo hi] integers_upcoming [OF b(2), of lo hi] u
  obtain m1' m2' where
    "integers m1 lo hi = (Inr (scaled (upcoming m1 0) lo hi), m1')"
    "integers m2 lo hi = (Inr (scaled (upcoming m1 0) lo hi), m2')"
    "same_data m1 m1'" "same_data m2 m2'" "batch m1' = batch m1" "batch m2' = batch m2"
    "\<forall>k. upcoming m1' k = upcoming m1 (Suc k)" "\<forall>k. upcoming m2' k = upcoming m2 (Suc k)"
    by auto
  with rng_equiv_step [OF assms] show ?thesis by blast
qed

lemma choice_equiv:
  assumes "rng_equiv m1 m2"
  shows "\<exists>v m1' m2'. choice m1 items = (v, m1') \<and> choice m2 items = (v, m2')
           \<and> rng_equiv m1' m2' \<and> same_data m1 m1'"
  using integers_equiv [OF assms, of 0 "int (length items) - 1"]
  by (auto simp: choice_def)

lemma null_sample_equiv:
  assumes "rng_equiv m1 m2"
  shows "\<exists>res m1' m2'. null_sample rt m1 da dn = (res, m1') \<and> null_sample rt m2 da dn = (res, m2')
           \<and> rng_equiv m1' m2' \<and> same_data m1 m1'"
proof -
  from rng_equiv_data [OF assms] have fv: "frozen_valid m2 = frozen_valid m1" by simp
  from integers_equiv [OF assms, of 0 "int (length (frozen_valid m1)) - 1"]
  obtain id1 a1 a2 where
    i1: "integers m1 0 (int (length (frozen_valid m1)) - 1) = (Inr id1, a1)"
    and i2: "integers m2 0 (int (length (frozen_valid m1)) - 1) = (Inr id1, a2)"
    and e: "rng_equiv a1 a2" and sd: "same_data m1 a1"
    by blast
  from rng_equiv_data [OF e] have fd: "filter_diffby a2 = filter_diffby a1" by simp
  show ?thesis
  proof (cases "id1 < 0 \<or> nat id1 \<notin> set (frozen_valid m1)")
    case True
    with i1 i2 fv e sd show ?thesis by (auto simp: null_sample_def)
  next
    case False
    show ?thesis
    proof (cases "filter_diffby a1 (nat id1) da dn (set_diff (frozen_valid m1) [nat id1])")
      case (Inl err)
      with False i1 i2 fv fd e sd show ?thesis by (auto simp: null_sample_def)
    next
      case (Inr valid)
      show ?thesis
      proof (cases "valid = []")
        case True
        with Inr False i1 i2 fv fd e sd show ?thesis by (auto simp: null_sample_def)
      next
        case nonempty: False
        from choice_equiv [OF e, of "set_iter rt valid"] obtain v b1 b2 where
          c1: "choice a1 (set_iter rt valid) = (v, b1)" and c2: "choice a2 (set_iter rt valid) = (v, b2)"
          and e2: "rng_equiv b1 b2" and sd2: "same_data a1 b1"
          by blast
        from same_data_trans [OF sd sd2] have "same_data m1 b1" .
        with nonempty Inr False i1 i2 fv fd c1 c2 e2 show ?thesis
          by (cases v) (auto simp: null_sample_def)
      qed
    qed
  qed
qed

lemma tries_equiv:
  "rng_equiv m1 m2 \<Longrightarrow>
     \<exists>res m1' m2'. tries rt n m1 da dn = (res, m1') \<and> tries rt n m2 da dn = (res, m2')
        \<and> rng_equiv m1' m2' \<and> same_data m1 m1'"
proof (induction n arbitrary: m1 m2)
  case 0
  then show ?case by (simp add: same_data_refl)
next
  case (Suc n)
  from null_sample_equiv [OF Suc.prems, of rt da dn] obtain res a1 a2 where
    n1: "null_sample rt m1 da dn = (res, a1)" and n2: "null_sample rt m2 da dn = (res, a2)"
    and e: "rng_equiv a1 a2" and sd: "same_data m1 a1"
    by blast
  show ?case
  proof (cases "\<exists>i. res = Inl (UnpairedException i)")
    case True
    then obtain i where r: "res = Inl (UnpairedException i)" by blast
    from Suc.IH [OF e] obtain res' b1 b2 where
      "tries rt n a1 da dn = (res', b1)" "tries rt n a2 da dn = (res', b2)"
      "rng_equiv b1 b2" "same_data a1 b1"
      by blast
    with n1 n2 r sd show ?thesis by (auto intro: same_data_trans)
  next
    case False
    with n1 n2 e sd show ?thesis
      by (cases res) (auto split: error.splits)
  qed
qed

lemma sample_null_pair_equiv:
  assumes "rng_equiv m1 m2"
  shows "\<exists>res m1' m2'. sample_null_pair rt m1 diffby n = (res, m1')
           \<and> sample_null_pair rt m2 diffby n = (res, m2')
           \<and> rng_equiv m1' m2' \<and> same_data m1 m1'"
proof (cases "normalise DiffbyAnyOne diffby")
  case (Inl e)
  with assms show ?thesis by (simp add: sample_null_pair_def same_data_refl)
next
  case (Inr p)
  obtain da dn where "p = (da, dn)" by (cases p)
  with Inr tries_equiv [OF assms, of rt "nat n" da dn] show ?thesis
    by (simp add: sample_null_pair_def)
qed

lemma run_equiv: "rng_equiv m1 m2 \<Longrightarrow> run rt m1 calls = run rt m2 calls"
proof (induction calls arbitrary: m1 m2)
  case Nil
  then show ?case by simp
next
  case (Cons c calls)
  show ?case
  proof (cases c)
    case (SampleNullPair diffby n)
    from sample_null_pair_equiv [OF Cons.prems, of rt diffby n] obtain res a1 a2 where
      "sample_null_pair rt m1 diffby n = (res, a1)" "sample_null_pair rt m2 diffby n = (res, a2)"
      "rng_equiv a1 a2"
      by blast
    with SampleNullPair Cons.IH [of a1 a2] show ?thesis by simp
  next
    case (GetAllPairs sameby diffby)
    with rng_equiv_data [OF Cons.prems, of rt] Cons.IH [OF Cons.prems] show ?thesis by simp
  qed
qed

lemma Matcher_init_batch:
  assumes "Matcher_init rt b1 df cols seed max_size = Inr m1"
  shows "Matcher_init rt b2 df cols seed max_size = Inr (m1\<lparr>batch := b2\<rparr>)"
proof -
  from assms obtain df' where s: "select_columns df cols = Inr df'"
    by (auto simp: Matcher_init_def split: sum.splits)
  obtain mps g lg where bm: "build_mappers max_size df' (col_names df')
      (\<lparr>tape = default_rng rt seed, pos = 0\<rparr>, []) = (mps, g, lg)"
    by (cases "build_mappers max_size df' (col_names df') (\<lparr>tape = default_rng rt seed, pos = 0\<rparr>, [])") auto
  from assms have "m1 = \<lparr>vals = df_rows df',
       reverse = map (\<lambda>(name, mapper). (name, map (\<lambda>(k, x). (k, remdups x)) mapper)) mps,
       col_order = zip (sort_key (lookup_nat (map (\<lambda>(name, mapper). (name, n_combs mapper)) mps))
                          (map fst (map (\<lambda>(name, mapper). (name, n_combs mapper)) mps)))
                       [0 ..< length (sort_key (lookup_nat (map (\<lambda>(name, mapper). (name, n_combs mapper)) mps))
                          (map fst (map (\<lambda>(name, mapper). (name, n_combs mapper)) mps)))],
       col_to_ix = zip cols [0 ..< length cols], columns = cols,
       n_pairs = map (\<lambda>(name, mapper). (name, n_combs mapper)) mps,
       rng = g, rand_iter = [], frozen_valid = [0 ..< length (df_rows df')],
       batch = b1, warnings = lg\<rparr>"
    by (simp add: Matcher_init_def s bm Let_def)
  then show ?thesis
    by (simp add: Matcher_init_def s bm Let_def)
qed

lemma init_rng_equiv:
  assumes "Matcher_init rt b1 df cols seed max_size = Inr m1"
    and "Matcher_init rt b2 df cols seed max_size = Inr m2" and "0 < b1" and "0 < b2"
  shows "rng_equiv m1 m2"
proof -
  from Matcher_init_batch [OF assms(1), of b2] assms(2) have m2: "m2 = m1\<lparr>batch := b2\<rparr>" by simp
  from Matcher_init_fields [OF assms(1)] have b: "batch m1 = b1" by simp
  have "m2 = m1\<lparr>rng := rng m1, rand_iter := rand_iter m1, batch := b2\<rparr>" by (simp add: m2)
  then have 1: "\<exists>g r b. m2 = m1\<lparr>rng := g, rand_iter := r, batch := b\<rparr>" by blast
  have 2: "\<forall>k. upcoming m1 k = upcoming m2 k" by (simp add: m2 upcoming_def)
  have 3: "0 < batch m1" "0 < batch m2" using assms(3,4) b by (simp_all add: m2)
  from 1 2 3 show ?thesis unfolding rng_equiv_def by blast
qed

subsection \<open>Null pairs satisfy the diffby constraint\<close>

lemma rand_next_same_data: "rand_next m = (r, m') \<Longrightarrow> same_data m m'"
  by (auto simp: rand_next_def same_data_def rng_uniform_def split: list.splits)

lemma integers_same_data: "integers m lo hi = (r, m') \<Longrightarrow> same_data m m'"
  by (auto simp: integers_def split: prod.splits sum.splits dest: rand_next_same_data)

lemma choice_result:
  "choice m items = (r, m') \<Longrightarrow> same_data m m' \<and> (\<forall>x. r = Inr x \<longrightarrow> x \<in> set items)"
  by (auto simp: choice_def py_item_def split: prod.splits sum.splits if_splits
      dest: integers_same_data)

lemma same_data_filter_diffby: "same_data m m' \<Longrightarrow> filter_diffby m' = filter_diffby m"
proof -
  assume "same_data m m'"
  then have "m' = m\<lparr>rng := rng m', rand_iter := rand_iter m', batch := batch m\<rparr>"
    by (cases m; cases m') (auto simp: same_data_def)
  then show ?thesis by (metis filter_diffby_data)
qed

lemma same_value_rows_Some:
  "same_value_rows m (vals m ! i) c = Inr (Some s) \<Longrightarrow>
     \<exists>ix k. map_of (col_to_ix m) c = Some ix \<and> cell_of m i c = Val k \<and> index_group m c k = Some s"
  by (auto simp: same_value_rows_def cell_of_def index_group_def
      split: option.splits if_splits cell.splits)

lemma same_value_rows_None:
  "same_value_rows m (vals m ! i) c = Inr None \<Longrightarrow> isna (cell_of m i c)"
  by (auto simp: same_value_rows_def cell_of_def split: option.splits if_splits cell.splits)

lemma diffby_all_loop_sound:
  "diffby_all_loop m row cols valid = Inr v \<Longrightarrow>
     set v \<subseteq> set valid
     \<and> (\<forall>c\<in>set cols. (same_value_rows m row c = Inr None)
            \<or> (\<exists>s. same_value_rows m row c = Inr (Some s) \<and> set v \<inter> set s = {}))"
proof (induction cols arbitrary: valid)
  case Nil
  then show ?case by simp
next
  case (Cons c cols)
  show ?case
  proof (cases "same_value_rows m row c")
    case (Inl e)
    with Cons.prems show ?thesis by simp
  next
    case (Inr r)
    show ?thesis
    proof (cases r)
      case None
      with Inr Cons.prems Cons.IH [of valid] show ?thesis by auto
    next
      case (Some s)
      with Inr Cons.prems have "diffby_all_loop m row cols (set_diff valid s) = Inr v" by simp
      from Cons.IH [OF this] Inr Some show ?thesis by (auto simp: set_diff_def)
    qed
  qed
qed

lemma set_set_intersection: "set (set_intersection s ss) = set s \<inter> (\<Inter>t\<in>set ss. set t)"
  by (induction ss arbitrary: s) auto

lemma diffby_any_loop_sound:
  "diffby_any_loop m row cols = Inr mapped \<Longrightarrow>
     \<forall>s\<in>set mapped. \<exists>c\<in>set cols. same_value_rows m row c = Inr (Some s)"
proof (induction cols arbitrary: mapped)
  case Nil
  then show ?case by simp
next
  case (Cons c cols)
  then show ?case by (auto split: sum.splits option.splits)
qed

lemma not_in_group:
  assumes "exact_index m" and "same_value_rows m (vals m ! i) c = Inr (Some s)"
    and "x < length (vals m)" and "x \<notin> set s"
  shows "\<not> isna (cell_of m i c) \<and> cell_of m x c \<noteq> cell_of m i c"
proof -
  from same_value_rows_Some [OF assms(2)] obtain ix k where
    a: "map_of (col_to_ix m) c = Some ix" "cell_of m i c = Val k" "index_group m c k = Some s"
    by blast
  with assms(1) have "set s = set (holders m c k)" unfolding exact_index_def by blast
  with assms(3,4) have "cell_of m x c \<noteq> Val k" by (auto simp: holders_def)
  with a show ?thesis by simp
qed

lemma filter_diffby_sound:
  assumes ex: "exact_index m" and f: "filter_diffby m id1 da dn valid = Inr v"
    and r: "\<forall>x\<in>set valid. x < length (vals m)"
  shows "set v \<subseteq> set valid \<and> (\<forall>x\<in>set v. satisfies_diffby m da dn id1 x)"
proof -
  from f obtain v1 where l: "diffby_all_loop m (vals m ! id1) da valid = Inr v1"
    by (auto simp: filter_diffby_def split: if_splits sum.splits)
  from diffby_all_loop_sound [OF l] have sub1: "set v1 \<subseteq> set valid"
    and allc: "\<forall>c\<in>set da. same_value_rows m (vals m ! id1) c = Inr None
            \<or> (\<exists>s. same_value_rows m (vals m ! id1) c = Inr (Some s) \<and> set v1 \<inter> set s = {})"
    by auto
  have vsub: "set v \<subseteq> set v1"
    using f l by (auto simp: filter_diffby_def set_diff_def split: if_splits sum.splits list.splits)
  have part_all: "\<forall>x\<in>set v. list_all (\<lambda>c. isna (cell_of m id1 c) \<or> cell_of m x c \<noteq> cell_of m id1 c) da"
  proof
    fix x assume x: "x \<in> set v"
    with vsub sub1 r have xv1: "x \<in> set v1" and xl: "x < length (vals m)" by auto
    show "list_all (\<lambda>c. isna (cell_of m id1 c) \<or> cell_of m x c \<noteq> cell_of m id1 c) da"
      unfolding list_all_iff
    proof
      fix c assume "c \<in> set da"
      with allc consider "same_value_rows m (vals m ! id1) c = Inr None"
        | s where "same_value_rows m (vals m ! id1) c = Inr (Some s)" "set v1 \<inter> set s = {}"
        by blast
      then show "isna (cell_of m id1 c) \<or> cell_of m x c \<noteq> cell_of m id1 c"
      proof cases
        case 1
        then show ?thesis by (simp add: same_value_rows_None)
      next
        case 2
        with xv1 have "x \<notin> set s" by auto
        from not_in_group [OF ex 2(1) xl this] show ?thesis by simp
      qed
    qed
  qed
  have part_any: "\<forall>x\<in>set v. dn = []
      \<or> list_ex (\<lambda>c. \<not> isna (cell_of m id1 c) \<and> cell_of m x c \<noteq> cell_of m id1 c) dn"
  proof (cases "dn = []")
    case True
    then show ?thesis by simp
  next
    case False
    with f l obtain s ss where an: "diffby_any_loop m (vals m ! id1) dn = Inr (s # ss)"
      and v: "v = set_diff v1 (set_intersection s ss)"
      by (auto simp: filter_diffby_def split: if_splits sum.splits list.splits)
    show ?thesis
    proof
      fix x assume x: "x \<in> set v"
      with vsub sub1 r have xl: "x < length (vals m)" by auto
      from x v have "x \<notin> set (set_intersection s ss)" by (simp add: set_diff_def)
      then obtain t where t: "t \<in> set (s # ss)" "x \<notin> set t"
        by (auto simp: set_set_intersection)
      with diffby_any_loop_sound [OF an] obtain c where
        c: "c \<in> set dn" "same_value_rows m (vals m ! id1) c = Inr (Some t)"
        by blast
      from not_in_group [OF ex c(2) xl t(2)] c(1)
      show "dn = [] \<or> list_ex (\<lambda>c. \<not> isna (cell_of m id1 c) \<and> cell_of m x c \<noteq> cell_of m id1 c) dn"
        by (auto simp: list_ex_iff)
    qed
  qed
  from vsub sub1 part_all part_any show ?thesis
    by (auto simp: satisfies_diffby_def)
qed

lemma same_data_fields:
  assumes "same_data m m'"
  shows "vals m' = vals m" and "frozen_valid m' = frozen_valid m" and "cell_of m' = cell_of m"
    and "satisfies_diffby m' = satisfies_diffby m" and "index_group m' = index_group m"
    and "holders m' = holders m"
proof -
  from assms have e: "m' = m\<lparr>rng := rng m', rand_iter := rand_iter m'\<rparr>"
    by (simp add: same_data_def)
  show v: "vals m' = vals m" by (subst e) simp
  show "frozen_valid m' = frozen_valid m" by (subst e) simp
  have ci: "col_to_ix m' = col_to_ix m" by (subst e) simp
  have rv: "reverse m' = reverse m" by (subst e) simp
  show c: "cell_of m' = cell_of m"
    by (simp add: cell_of_def fun_eq_iff v ci cong: option.case_cong)
  show "satisfies_diffby m' = satisfies_diffby m"
    by (simp add: satisfies_diffby_def fun_eq_iff c)
  show "index_group m' = index_group m"
    by (simp add: index_group_def fun_eq_iff rv)
  show "holders m' = holders m"
    by (simp add: holders_def fun_eq_iff c v)
qed

lemma same_data_exact: "same_data m m' \<Longrightarrow> exact_index m \<Longrightarrow> exact_index m'"
proof -
  assume sd: "same_data m m'" and ex: "exact_index m"
  from sd have e: "m' = m\<lparr>rng := rng m', rand_iter := rand_iter m'\<rparr>"
    by (simp add: same_data_def)
  have ci: "col_to_ix m' = col_to_ix m" by (subst e) simp
  from ex show ?thesis
    unfolding exact_index_def same_data_fields [OF sd] ci .
qed

lemma null_sample_valid:
  assumes ex: "exact_index m" and it: "iter_ok rt"
    and n: "null_sample rt m da dn = (res, m')"
  shows "same_data m m' \<and> (\<forall>a b. res = Inr (a, b) \<longrightarrow>
           a \<noteq> b \<and> a < length (vals m) \<and> b < length (vals m) \<and> satisfies_diffby m da dn a b)"
proof -
  obtain r1 m1 where i: "integers m 0 (int (length (frozen_valid m)) - 1) = (r1, m1)"
    by (cases "integers m 0 (int (length (frozen_valid m)) - 1)")
  from integers_same_data [OF i] have sd1: "same_data m m1" .
  from ex have fv: "frozen_valid m = [0 ..< length (vals m)]" by (simp add: exact_index_def)
  show ?thesis
  proof (cases r1)
    case (Inl e)
    with i n sd1 show ?thesis by (auto simp: null_sample_def)
  next
    case (Inr id1)
    show ?thesis
    proof (cases "id1 < 0 \<or> nat id1 \<notin> set (frozen_valid m)")
      case True
      with Inr i n sd1 show ?thesis by (auto simp: null_sample_def)
    next
      case False
      let ?valid0 = "set_diff (frozen_valid m) [nat id1]"
      from False fv have id1: "nat id1 < length (vals m)" by auto
      show ?thesis
      proof (cases "filter_diffby m (nat id1) da dn ?valid0")
        case (Inl e)
        with False Inr i n sd1 same_data_filter_diffby [OF sd1] show ?thesis
          by (auto simp: null_sample_def)
      next
        case valid: (Inr valid)
        have r0: "\<forall>x\<in>set ?valid0. x < length (vals m)" by (auto simp: set_diff_def fv)
        from filter_diffby_sound [OF ex valid r0]
        have sub: "set valid \<subseteq> set ?valid0" and sat: "\<forall>x\<in>set valid. satisfies_diffby m da dn (nat id1) x"
          by auto
        show ?thesis
        proof (cases "valid = []")
          case True
          with valid False Inr i n sd1 same_data_filter_diffby [OF sd1] show ?thesis
            by (auto simp: null_sample_def)
        next
          case nonempty: False
          obtain r2 m2 where c: "choice m1 (set_iter rt valid) = (r2, m2)"
            by (cases "choice m1 (set_iter rt valid)")
          from choice_result [OF c] it have sd2: "same_data m1 m2"
            and mem: "\<forall>x. r2 = Inr x \<longrightarrow> x \<in> set valid"
            by (auto simp: iter_ok_def)
          from nonempty valid False Inr i n c same_data_filter_diffby [OF sd1]
          have res: "m' = m2" "res = (case r2 of Inl e \<Rightarrow> Inl e | Inr id2 \<Rightarrow> Inr (nat id1, id2))"
            by (auto simp: null_sample_def split: sum.splits)
          have "\<forall>a b. res = Inr (a, b) \<longrightarrow>
                 a \<noteq> b \<and> a < length (vals m) \<and> b < length (vals m) \<and> satisfies_diffby m da dn a b"
          proof (intro allI impI)
            fix a b assume "res = Inr (a, b)"
            with res obtain id2 where "r2 = Inr id2" "a = nat id1" "b = id2"
              by (auto split: sum.splits)
            with mem sub sat id1 fv
            show "a \<noteq> b \<and> a < length (vals m) \<and> b < length (vals m) \<and> satisfies_diffby m da dn a b"
              by (auto simp: set_diff_def)
          qed
          with res same_data_trans [OF sd1 sd2] show ?thesis by simp
        qed
      qed
    qed
  qed
qed

lemma tries_valid:
  "exact_index m \<Longrightarrow> iter_ok rt \<Longrightarrow> tries rt n m da dn = (res, m') \<Longrightarrow>
     same_data m m' \<and> (\<forall>a b. res = Inr (a, b) \<longrightarrow>
        a \<noteq> b \<and> a < length (vals m) \<and> b < length (vals m) \<and> satisfies_diffby m da dn a b)"
proof (induction n arbitrary: m)
  case 0
  then show ?case by (auto simp: same_data_refl)
next
  case (Suc n)
  obtain r1 m1 where ns: "null_sample rt m da dn = (r1, m1)" by (cases "null_sample rt m da dn")
  from null_sample_valid [OF Suc.prems(1,2) ns]
  have sd: "same_data m m1" and ok: "\<forall>a b. r1 = Inr (a, b) \<longrightarrow>
        a \<noteq> b \<and> a < length (vals m) \<and> b < length (vals m) \<and> satisfies_diffby m da dn a b"
    by auto
  show ?case
  proof (cases "\<exists>i. r1 = Inl (UnpairedException i)")
    case True
    then obtain i where r1: "r1 = Inl (UnpairedException i)" by blast
    with ns Suc.prems(3) have t: "tries rt n m1 da dn = (res, m')" by simp
    from Suc.IH [OF same_data_exact [OF sd Suc.prems(1)] Suc.prems(2) t] same_data_fields [OF sd] sd
    show ?thesis by (auto intro: same_data_trans)
  next
    case False
    with ns Suc.prems(3) have "res = r1" "m' = m1"
      by (cases r1; auto split: error.splits)+
    with sd ok show ?thesis by simp
  qed
qed

lemma sample_null_pair_valid:
  assumes "exact_index m" and "iter_ok rt" and "sample_null_pair rt m diffby n = (res, m')"
  shows "same_data m m' \<and> answer_valid m (SampleNullPair diffby n) (map_sum id NullPair res)"
proof (cases "normalise DiffbyAnyOne diffby")
  case (Inl e)
  with assms(3) show ?thesis by (auto simp: sample_null_pair_def same_data_refl)
next
  case (Inr p)
  obtain da dn where p: "p = (da, dn)" by (cases p)
  with Inr assms(3) have "tries rt (nat n) m da dn = (res, m')" by (simp add: sample_null_pair_def)
  from tries_valid [OF assms(1,2) this] Inr p show ?thesis
    by (cases res) auto
qed

lemma answer_valid_same_data: "same_data m m' \<Longrightarrow> answer_valid m' c r = answer_valid m c r"
  by (induction m c r rule: answer_valid.induct)
     (auto simp: same_data_fields split: sum.splits)

lemma run_valid:
  "exact_index m \<Longrightarrow> iter_ok rt \<Longrightarrow> list_all2 (answer_valid m) calls (run rt m calls)"
proof (induction calls arbitrary: m)
  case Nil
  then show ?case by simp
next
  case (Cons c calls)
  show ?case
  proof (cases c)
    case (SampleNullPair diffby n)
    obtain res m' where s: "sample_null_pair rt m diffby n = (res, m')"
      by (cases "sample_null_pair rt m diffby n")
    from sample_null_pair_valid [OF Cons.prems s]
    have sd: "same_data m m'" and v: "answer_valid m (SampleNullPair diffby n) (map_sum id NullPair res)"
      by auto
    from Cons.IH [OF same_data_exact [OF sd Cons.prems(1)] Cons.prems(2)]
    have "list_all2 (answer_valid m') calls (run rt m' calls)" .
    then have "list_all2 (answer_valid m) calls (run rt m' calls)"
      by (simp add: answer_valid_same_data [OF sd, abs_def])
    with SampleNullPair s v show ?thesis by simp
  next
    case (GetAllPairs sameby diffby)
    with Cons.IH [OF Cons.prems] show ?thesis by simp
  qed
qed

lemma col_pos_in: "col_pos cs c = Some i \<Longrightarrow> c \<in> set cs"
  by (induction cs arbitrary: i) (auto split: if_splits)

lemma init_exact:
  assumes init: "Matcher_init rt b df cols seed max_size = Inr m"
    and no: "\<forall>c\<in>set cols. \<forall>k. \<not> oversized max_size (holders m c k)"
  shows "exact_index m"
proof -
  from Matcher_init_fields [OF init] have fv: "frozen_valid m = [0 ..< length (vals m)]"
    and ci: "col_to_ix m = zip cols [0 ..< length cols]" by auto
  have "\<forall>c ix k s. map_of (col_to_ix m) c = Some ix \<and> index_group m c k = Some s
            \<longrightarrow> set s = set (holders m c k)"
  proof (intro allI impI)
    fix c ix k s
    assume a: "map_of (col_to_ix m) c = Some ix \<and> index_group m c k = Some s"
    then have c: "c \<in> set cols" by (auto simp: ci map_of_zip_col_pos dest: col_pos_in)
    from init_index [OF init c] obtain mapper where
      mp: "map_of (reverse m) c = Some mapper"
      and g: "\<forall>k g. (k, g) \<in> set mapper \<longrightarrow> g \<noteq> [] \<and> distinct g \<and> set g \<subseteq> set (holders m c k)
            \<and> (if oversized max_size (holders m c k) then length g \<le> the max_size
                else g = holders m c k)"
      by blast
    from a mp have "(k, s) \<in> set mapper" by (auto simp: index_group_def dest: map_of_SomeD)
    with g no c show "set s = set (holders m c k)" by (auto split: if_splits)
  qed
  with fv show ?thesis by (simp add: exact_index_def)
qed

text \<open>
  Reproducibility. Two matchers constructed of the same frame with the same
  arguments and the same seed, whatever their refill sizes, give the same results for
  the same sequence of \<open>sample_null_pair\<close> and \<open>get_all_pairs\<close> calls. When no group
  was larger than \<open>max_size\<close> (in particular when none was given), every pair that
  \<open>sample_null_pair\<close> returns is of two different rows and satisfies the diffby
  constraint of its call.
\<close>

lemma same_seed_same_results:
  assumes "Matcher_init rt b1 df cols seed max_size = Inr m1"
    and "Matcher_init rt b2 df cols seed max_size = Inr m2"
    and "0 < b1" and "0 < b2"
  shows "run rt m1 calls = run rt m2 calls
       \<and> (iter_ok rt \<and> (\<forall>c\<in>set cols. \<forall>k. \<not> oversized max_size (holders m1 c k))
            \<longrightarrow> list_all2 (answer_valid m1) calls (run rt m1 calls))"
  using run_equiv [OF init_rng_equiv [OF assms]] run_valid [OF init_exact [OF assms(1)]]
  by blast

lemma three_rows_sample:
  "sample_null_pair half_second (matcher_three_rows 0 []) (Cols [''compound'', ''plate'']) 5
     = (Inr (1, 2), matcher_three_rows 4 [0])"
proof -
  have u1: "unpaired_run half_second 1 (matcher_three_rows 0 []) [''compound'', ''plate''] []
              = Some (matcher_three_rows 2 [2 ^ 52])"
    using three_rows_try1 by simp
  have k: "(1::nat) < nat 5" by simp
  from tries_first_other [OF u1 k three_rows_try2] show ?thesis
    by (simp add: sample_null_pair_def)
qed

lemma three_rows_all_pairs:
  "get_all_pairs half_second (matcher_three_rows p buf) (Name ''compound'') (Name ''plate'')
     = Inr [(KVal (PStr ''X''), [(0, 1)])]"
  by (simp add: matcher_three_rows_def pairs_defs half_second_def)

lemma init_three_rows_3:
  "Matcher_init half_second 3 three_rows [''compound'', ''plate''] 0 None
     = Inr ((matcher_three_rows 0 [])\<lparr>batch := 3\<rparr>)"
  using Matcher_init_batch [OF init_three_rows, of 3] .

lemma same_seed_same_results_example:
  "Matcher_init half_second 2 three_rows [''compound'', ''plate''] 0 None
     = Inr (matcher_three_rows 0 [])
   \<and> Matcher_init half_second 3 three_rows [''compound'', ''plate''] 0 None
     = Inr ((matcher_three_rows 0 [])\<lparr>batch := 3\<rparr>)
   \<and> (0::nat) < 2 \<and> (0::nat) < 3 \<and> iter_ok half_second
   \<and> run half_second (matcher_three_rows 0 [])
        [SampleNullPair (Cols [''compound'', ''plate'']) 5, GetAllPairs (Name ''compound'') (Name ''plate'')]
      = [Inr (NullPair (1, 2)), Inr (AllPairs [(KVal (PStr ''X''), [(0, 1)])])]
   \<and> run half_second ((matcher_three_rows 0 [])\<lparr>batch := 3\<rparr>)
        [SampleNullPair (Cols [''compound'', ''plate'']) 5, GetAllPairs (Name ''compound'') (Name ''plate'')]
      = [Inr (NullPair (1, 2)), Inr (AllPairs [(KVal (PStr ''X''), [(0, 1)])])]
   \<and> list_all2 (answer_valid (matcher_three_rows 0 []))
        [SampleNullPair (Cols [''compound'', ''plate'']) 5, GetAllPairs (Name ''compound'') (Name ''plate'')]
        (run half_second (matcher_three_rows 0 [])
          [SampleNullPair (Cols [''compound'', ''plate'']) 5, GetAllPairs (Name ''compound'') (Name ''plate'')])"
proof -
  let ?calls = "[SampleNullPair (Cols [''compound'', ''plate'']) 5, GetAllPairs (Name ''compound'') (Name ''plate'')]"
  have a: "(0::nat) < 2" and b: "(0::nat) < 3" by simp_all
  have it: "iter_ok half_second" by (simp add: iter_ok_def half_second_def)
  have no: "\<forall>c\<in>set [''compound'', ''plate'']. \<forall>k. \<not> oversized None (holders (matcher_three_rows 0 []) c k)"
    by (simp add: oversized_def)
  have r: "run half_second (matcher_three_rows 0 []) ?calls
      = [Inr (NullPair (1, 2)), Inr (AllPairs [(KVal (PStr ''X''), [(0, 1)])])]"
    by (simp add: three_rows_sample three_rows_all_pairs)
  note t = same_seed_same_results [OF init_three_rows init_three_rows_3 a b, of ?calls]
  from t have e: "run half_second (matcher_three_rows 0 []) ?calls
      = run half_second ((matcher_three_rows 0 [])\<lparr>batch := 3\<rparr>) ?calls"
    by (rule conjunct1)
  from t [THEN conjunct2] it no
  have v: "list_all2 (answer_valid (matcher_three_rows 0 [])) ?calls
     (run half_second (matcher_three_rows 0 []) ?calls)"
    by blast
  from init_three_rows init_three_rows_3 a b it r e v show ?thesis by metis
qed

lemma three_x_try:
  "null_sample ascending matcher_three_x [''compound''] []
     = (Inr (0, 1), matcher_three_x\<lparr>rng := \<lparr>tape = \<lambda>i. 0, pos = 4\<rparr>, rand_iter := []\<rparr>)"
  by (simp add: matcher_three_x_def draw_defs ascending_def)

text \<open>
  C7. The claim is that every pair \<open>sample_null_pair\<close> returns satisfies the diffby
  constraint, and \<open>_filter_diffby\<close> is documented to remove from \<open>valid\<close> the rows
  that match the drawn row in a diffby column. It removes the rows of
  \<open>self.reverse[col][val]\<close>, which for a group that \<open>clip_list\<close> sampled holds only
  the sample. In \<open>matcher_three_x\<close>, built of three rows of compound X with
  \<open>max_size = 2\<close>, the set of X holds row 0 alone, and \<open>sample_null_pair\<close> with
  diffby "compound" returns the rows 0 and 1, both of compound X.
\<close>

theorem clipped_null_pair_shares_value:
  "Matcher_init ascending 2 three_x [''compound''] 0 (Some 2) = Inr matcher_three_x
   \<and> fst (sample_null_pair ascending matcher_three_x (Name ''compound'') 5) = Inr (0, 1)
   \<and> cell_of matcher_three_x 0 ''compound'' = Val (PStr ''X'')
   \<and> cell_of matcher_three_x 1 ''compound'' = Val (PStr ''X'')
   \<and> \<not> satisfies_diffby matcher_three_x [''compound''] [] 0 1"
proof -
  have u: "unpaired_run ascending 0 matcher_three_x [''compound''] [] = Some matcher_three_x"
    by simp
  have k: "(0::nat) < nat 5" by simp
  from tries_first_other [OF u k three_x_try]
  have s: "fst (sample_null_pair ascending matcher_three_x (Name ''compound'') 5) = Inr (0, 1)"
    by (simp add: sample_null_pair_def)
  have c: "cell_of matcher_three_x 0 ''compound'' = Val (PStr ''X'')"
    "cell_of matcher_three_x 1 ''compound'' = Val (PStr ''X'')"
    by (simp_all add: matcher_three_x_def cell_of_def)
  then have "\<not> satisfies_diffby matcher_three_x [''compound''] [] 0 1"
    by (simp add: satisfies_diffby_def)
  with init_three_x s c show ?thesis by simp
qed

subsection \<open>The pairs of one sameby column\<close>

lemma before_Cons:
  "before (x # xs) a b \<longleftrightarrow> (a = x \<and> b \<in> set xs) \<or> (a \<noteq> x \<and> before xs a b)"
proof
  assume "before (x # xs) a b"
  then obtain pre post where p: "x # xs = pre @ a # post" "a \<notin> set pre" "b \<in> set post"
    by (auto simp: before_def)
  show "(a = x \<and> b \<in> set xs) \<or> (a \<noteq> x \<and> before xs a b)"
  proof (cases pre)
    case Nil
    with p show ?thesis by auto
  next
    case (Cons y pre')
    with p have "xs = pre' @ a # post" "a \<notin> set pre'" "a \<noteq> x" by auto
    with p(3) show ?thesis by (auto simp: before_def)
  qed
next
  assume r: "(a = x \<and> b \<in> set xs) \<or> (a \<noteq> x \<and> before xs a b)"
  show "before (x # xs) a b"
  proof (cases "a = x")
    case True
    with r have "x # xs = [] @ a # xs \<and> a \<notin> set [] \<and> b \<in> set xs" by auto
    then show ?thesis unfolding before_def by blast
  next
    case False
    with r obtain pre post where "xs = pre @ a # post" "a \<notin> set pre" "b \<in> set post"
      by (auto simp: before_def)
    with False have "x # xs = (x # pre) @ a # post \<and> a \<notin> set (x # pre) \<and> b \<in> set post" by auto
    then show ?thesis unfolding before_def by blast
  qed
qed

lemma before_Nil [simp]: "\<not> before [] a b"
  by (simp add: before_def)

lemma before_in: "before xs a b \<Longrightarrow> a \<in> set xs \<and> b \<in> set xs"
  by (auto simp: before_def)

lemma before_distinct: "distinct xs \<Longrightarrow> before xs a b \<Longrightarrow> a \<noteq> b \<and> \<not> before xs b a"
  by (induction xs) (auto simp: before_Cons dest: before_in)

lemma before_total:
  "a \<in> set xs \<Longrightarrow> b \<in> set xs \<Longrightarrow> a \<noteq> b \<Longrightarrow> before xs a b \<or> before xs b a"
  by (induction xs) (auto simp: before_Cons)

lemma filter_diffby_subset:
  "filter_diffby m i da dn valid = Inr v \<Longrightarrow> set v \<subseteq> set valid"
  by (auto simp: filter_diffby_def set_diff_def split: if_splits sum.splits list.splits
      dest!: diffby_all_loop_sound)

lemma group_pairs_sound:
  assumes "iter_ok rt"
  shows "group_pairs rt m da dn rows processed rest = Inr ps \<Longrightarrow> distinct rest \<Longrightarrow>
     set rest \<inter> set processed = {} \<Longrightarrow> set rows \<subseteq> set rest \<union> set processed \<Longrightarrow>
     distinct ps \<and> (\<forall>a b. (a, b) \<in> set ps \<longrightarrow> before rest a b \<and> b \<in> set rows)"
proof (induction rest arbitrary: processed ps)
  case Nil
  then show ?case by simp
next
  case (Cons x xs)
  from Cons.prems(1) obtain valid ps' where
    f: "filter_diffby m x da dn (set_diff rows (x # processed)) = Inr valid"
    and g: "group_pairs rt m da dn rows (x # processed) xs = Inr ps'"
    and ps: "ps = map (Pair x) (set_iter rt valid) @ ps'"
    by (auto split: sum.splits)
  from Cons.prems have a: "distinct xs" "set xs \<inter> set (x # processed) = {}"
    "set rows \<subseteq> set xs \<union> set (x # processed)" by auto
  from Cons.IH [OF g a] have ih: "distinct ps'"
    "\<forall>a b. (a, b) \<in> set ps' \<longrightarrow> before xs a b \<and> b \<in> set rows" by auto
  from assms have it: "set (set_iter rt valid) = set valid" "distinct (set_iter rt valid)"
    by (auto simp: iter_ok_def)
  from filter_diffby_subset [OF f] have vs: "set valid \<subseteq> set rows - set (x # processed)"
    by (auto simp: set_diff_def)
  with Cons.prems(4) have vx: "set valid \<subseteq> set xs \<inter> set rows" by auto
  from ih(2) Cons.prems(2) have nx: "\<forall>a b. (a, b) \<in> set ps' \<longrightarrow> a \<noteq> x"
    by (auto dest: before_in)
  have d: "distinct ps"
    unfolding ps using ih(1) it(2) nx by (auto simp: distinct_map inj_on_def)
  have "\<forall>a b. (a, b) \<in> set ps \<longrightarrow> before (x # xs) a b \<and> b \<in> set rows"
    unfolding ps before_Cons using ih(2) nx vx it(1) by auto
  with d show ?case by simp
qed

lemma filter_diffby_empty:
  "filter_diffby m i [] [] valid = Inr v \<Longrightarrow> v = valid"
  by (auto simp: filter_diffby_def split: if_splits)

lemma group_pairs_complete:
  assumes "iter_ok rt"
  shows "group_pairs rt m [] [] rows processed rest = Inr ps \<Longrightarrow> distinct rest \<Longrightarrow>
     set rest \<inter> set processed = {} \<Longrightarrow> set rows \<subseteq> set rest \<union> set processed \<Longrightarrow>
     before rest a b \<Longrightarrow> b \<in> set rows \<Longrightarrow> (a, b) \<in> set ps"
proof (induction rest arbitrary: processed ps)
  case Nil
  then show ?case by simp
next
  case (Cons x xs)
  from Cons.prems(1) obtain valid ps' where
    f: "filter_diffby m x [] [] (set_diff rows (x # processed)) = Inr valid"
    and g: "group_pairs rt m [] [] rows (x # processed) xs = Inr ps'"
    and ps: "ps = map (Pair x) (set_iter rt valid) @ ps'"
    by (auto split: sum.splits)
  from Cons.prems have c: "distinct xs" "set xs \<inter> set (x # processed) = {}"
    "set rows \<subseteq> set xs \<union> set (x # processed)" by auto
  from assms have it: "set (set_iter rt valid) = set valid" by (auto simp: iter_ok_def)
  from filter_diffby_empty [OF f] have v: "valid = set_diff rows (x # processed)" .
  show ?case
  proof (cases "a = x")
    case True
    with Cons.prems(5) have "b \<in> set xs" by (simp add: before_Cons)
    with Cons.prems(2,3,6) have "b \<in> set valid" by (auto simp: v set_diff_def)
    with True it show ?thesis by (auto simp: ps)
  next
    case False
    with Cons.prems(5) have "before xs a b" by (simp add: before_Cons)
    from Cons.IH [OF g c this Cons.prems(6)] show ?thesis by (simp add: ps)
  qed
qed

lemma emitted_Cons [simp]: "emitted ((k, ps) # res) = ps @ emitted res"
  by (simp add: emitted_def)

lemma emitted_Nil [simp]: "emitted [] = []"
  by (simp add: emitted_def)

lemma all_groups_emitted:
  "all_groups rt m da dn mapper = Inr res \<Longrightarrow>
     \<exists>pss. list_all2 (\<lambda>g ps. group_pairs rt m da dn (snd g) [] (set_iter rt (snd g)) = Inr ps) mapper pss
        \<and> set (emitted res) = \<Union> (set ` set pss)
        \<and> res = filter (\<lambda>(k, ps). ps \<noteq> []) (zip (map fst mapper) pss)"
proof (induction mapper arbitrary: res)
  case Nil
  then show ?case by simp
next
  case (Cons g gs)
  obtain key rows where g: "g = (key, rows)" by (cases g)
  from Cons.prems g obtain ps rest where
    ps: "group_pairs rt m da dn rows [] (set_iter rt rows) = Inr ps"
    and rest: "all_groups rt m da dn gs = Inr rest"
    and res: "res = (if ps = [] then rest else (key, ps) # rest)"
    by (auto split: sum.splits)
  from Cons.IH [OF rest] obtain pss where
    ih: "list_all2 (\<lambda>g ps. group_pairs rt m da dn (snd g) [] (set_iter rt (snd g)) = Inr ps) gs pss"
    "set (emitted rest) = \<Union> (set ` set pss)"
    "rest = filter (\<lambda>(k, ps). ps \<noteq> []) (zip (map fst gs) pss)"
    by blast
  have "list_all2 (\<lambda>g ps. group_pairs rt m da dn (snd g) [] (set_iter rt (snd g)) = Inr ps) (g # gs) (ps # pss)"
    using ih(1) ps g by simp
  moreover have "set (emitted res) = \<Union> (set ` set (ps # pss))"
    using res ih(2) by auto
  moreover have "res = filter (\<lambda>(k, ps). ps \<noteq> []) (zip (map fst (g # gs)) (ps # pss))"
    using res ih(3) g by simp
  ultimately show ?case by blast
qed

lemma all_groups_sound:
  assumes it: "iter_ok rt" and ag: "all_groups rt m da dn mapper = Inr res"
    and ab: "(a, b) \<in> set (emitted res)"
  shows "\<exists>g\<in>set mapper. before (set_iter rt (snd g)) a b"
proof -
  from all_groups_emitted [OF ag] obtain pss where
    l: "list_all2 (\<lambda>g ps. group_pairs rt m da dn (snd g) [] (set_iter rt (snd g)) = Inr ps) mapper pss"
    and e: "set (emitted res) = \<Union> (set ` set pss)"
    by blast
  from ab e obtain ps where ps: "ps \<in> set pss" "(a, b) \<in> set ps" by auto
  from list_all2_right [OF l ps(1)] obtain g where
    g: "g \<in> set mapper" "group_pairs rt m da dn (snd g) [] (set_iter rt (snd g)) = Inr ps"
    by blast
  from it have d: "distinct (set_iter rt (snd g))" "set (set_iter rt (snd g)) = set (snd g)"
    by (auto simp: iter_ok_def)
  from group_pairs_sound [OF it g(2) d(1)] d(2) ps(2) have "before (set_iter rt (snd g)) a b"
    by auto
  with g(1) show ?thesis by blast
qed

lemma list_all2_left:
  "list_all2 R xs ys \<Longrightarrow> x \<in> set xs \<Longrightarrow> \<exists>y\<in>set ys. R x y"
  by (induction xs ys rule: list_all2_induct) auto

lemma all_groups_complete:
  assumes it: "iter_ok rt" and ag: "all_groups rt m [] [] mapper = Inr res"
    and g: "g \<in> set mapper" and ab: "before (set_iter rt (snd g)) a b"
  shows "(a, b) \<in> set (emitted res)"
proof -
  from all_groups_emitted [OF ag] obtain pss where
    l: "list_all2 (\<lambda>g ps. group_pairs rt m [] [] (snd g) [] (set_iter rt (snd g)) = Inr ps) mapper pss"
    and e: "set (emitted res) = \<Union> (set ` set pss)"
    by blast
  from list_all2_left [OF l g] obtain ps where
    ps: "ps \<in> set pss" "group_pairs rt m [] [] (snd g) [] (set_iter rt (snd g)) = Inr ps"
    by blast
  from it have d: "distinct (set_iter rt (snd g))" "set (set_iter rt (snd g)) = set (snd g)"
    by (auto simp: iter_ok_def)
  from before_in [OF ab] d(2) have "b \<in> set (snd g)" by simp
  from group_pairs_complete [OF it ps(2) d(1) _ _ ab this] d(2) have "(a, b) \<in> set ps" by simp
  with ps(1) e show ?thesis by auto
qed

lemma emitted_map_key [simp]: "emitted (map (\<lambda>(k, v). (f k, v)) pairs) = emitted pairs"
  by (induction pairs) (auto simp: emitted_def)

lemma get_all_pairs_name:
  assumes "get_all_pairs rt m (Name col) (Cols []) = Inr res"
  shows "col \<in> set (columns m) \<and> (\<exists>mapper pairs. map_of (reverse m) col = Some mapper
            \<and> all_groups rt m [] [] mapper = Inr pairs \<and> res = map (\<lambda>(k, v). (KVal k, v)) pairs)"
  using assms
  by (auto simp: get_all_pairs_def check_spec_def sameby_all_pairs_def apply_sameby_any_def
      get_all_pairs_single_def split: option.splits sum.splits if_splits)

subsection \<open>The multilabel matcher\<close>

lemma init_vals:
  assumes "Matcher_init rt b df cols seed max_size = Inr m"
  shows "vals m = map (\<lambda>r. map (\<lambda>c. case col_pos (col_names df) c of
                                             Some i \<Rightarrow> r ! i | None \<Rightarrow> NaN) cols) (df_rows df)"
proof -
  from assms obtain df' where s: "select_columns df cols = Inr df'"
    by (auto simp: Matcher_init_def split: sum.splits)
  obtain mps g lg where bm: "build_mappers max_size df' (col_names df') (\<lparr>tape = default_rng rt seed, pos = 0\<rparr>, [])
      = (mps, g, lg)"
    by (cases "build_mappers max_size df' (col_names df') (\<lparr>tape = default_rng rt seed, pos = 0\<rparr>, [])") auto
  from assms s bm have "vals m = df_rows df'"
    by (auto simp: Matcher_init_def Let_def)
  with s show ?thesis by (auto simp: select_columns_def split: if_splits)
qed

lemma explode_row_mem:
  "x \<in> set (explode_row i r) \<longleftrightarrow>
     fst x = i \<and> (\<exists>l. snd x = l # snd r \<and> (if fst r = [] then l = NaN else l \<in> set (fst r)))"
  by (cases "(i, r)" rule: explode_row.cases; cases x) auto

lemma exploded_mem:
  "x \<in> set (concat (map (\<lambda>(i, r). explode_row i r) (enumerate 0 rows))) \<longleftrightarrow>
     fst x < length rows
     \<and> (\<exists>l. snd x = l # snd (rows ! fst x)
            \<and> (if fst (rows ! fst x) = [] then l = NaN else l \<in> set (fst (rows ! fst x))))"
proof -
  have "x \<in> set (concat (map (\<lambda>(i, r). explode_row i r) (enumerate 0 rows)))
      \<longleftrightarrow> (\<exists>i r. (i, r) \<in> set (enumerate 0 rows) \<and> x \<in> set (explode_row i r))"
    by auto
  also have "\<dots> \<longleftrightarrow> (\<exists>i. i < length rows \<and> x \<in> set (explode_row i (rows ! i)))"
    by (auto simp: in_set_enumerate_eq)
  also have "\<dots> \<longleftrightarrow> fst x < length rows \<and> x \<in> set (explode_row (fst x) (rows ! fst x))"
    by (auto simp: explode_row_mem)
  finally show ?thesis by (simp add: explode_row_mem)
qed

lemma ml_init_cell:
  assumes init: "MatcherMultilabel_init rt b df cols col seed = Inr mm" and c: "col \<in> set cols"
  shows "length (original_index mm) = length (vals (inner mm))"
    and "a < length (vals (inner mm)) \<Longrightarrow> original_index mm ! a < length (ml_rows df)
           \<and> (\<forall>k. cell_of (inner mm) a col = Val k
                 \<longrightarrow> Val k \<in> set (fst (ml_rows df ! (original_index mm ! a))))"
    and "i < length (ml_rows df) \<Longrightarrow> Val k \<in> set (fst (ml_rows df ! i)) \<Longrightarrow>
           \<exists>a < length (vals (inner mm)). original_index mm ! a = i \<and> cell_of (inner mm) a col = Val k"
proof -
  let ?E = "concat (map (\<lambda>(i, r). explode_row i r) (enumerate 0 (ml_rows df)))"
  from init obtain m where m: "Matcher_init rt b (snd (explode col df)) cols seed None = Inr m"
    and mm: "mm = \<lparr>multilabel_col = col, ml_size = length (ml_rows df),
               multilabel_set = map (\<lambda>(labels, cells). remdups labels) (ml_rows df),
               original_index = fst (explode col df), inner = m\<rparr>"
    by (auto simp: MatcherMultilabel_init_def split: sum.splits)
  have oi': "fst (explode col df) = map fst ?E" by (simp add: explode_def Let_def)
  have oi: "original_index mm = map fst ?E" by (simp add: mm oi')
  from init_vals [OF m] have v: "vals m = map (\<lambda>r. map (\<lambda>c. case col_pos (col # scalar_names df) c of
                                             Some i \<Rightarrow> r ! i | None \<Rightarrow> NaN) cols) (map snd ?E)"
    by (simp add: explode_def Let_def)
  from Matcher_init_fields [OF m] have ci: "col_to_ix m = zip cols [0 ..< length cols]" by simp
  from col_pos_Some [OF c] obtain ix where ix: "col_pos cols col = Some ix" "ix < length cols" "cols ! ix = col"
    by auto
  have cell: "cell_of m a col = snd (?E ! a) ! 0" if "a < length ?E" for a
    using that ix by (simp add: cell_of_def ci map_of_zip_col_pos v)
  show "length (original_index mm) = length (vals (inner mm))"
    by (simp add: oi' mm v)
  show "original_index mm ! a < length (ml_rows df)
           \<and> (\<forall>k. cell_of (inner mm) a col = Val k
                 \<longrightarrow> Val k \<in> set (fst (ml_rows df ! (original_index mm ! a))))"
    if "a < length (vals (inner mm))"
  proof -
    from that have a: "a < length ?E" by (simp add: mm v)
    then have "?E ! a \<in> set ?E" by (rule nth_mem)
    then have e: "fst (?E ! a) < length (ml_rows df)"
      "\<exists>l. snd (?E ! a) = l # snd (ml_rows df ! fst (?E ! a))
            \<and> (if fst (ml_rows df ! fst (?E ! a)) = [] then l = NaN else l \<in> set (fst (ml_rows df ! fst (?E ! a))))"
      unfolding exploded_mem by blast+
    have o: "original_index mm ! a = fst (?E ! a)" using a by (simp add: oi)
    from e(2) obtain l where l: "snd (?E ! a) = l # snd (ml_rows df ! fst (?E ! a))"
      "if fst (ml_rows df ! fst (?E ! a)) = [] then l = NaN else l \<in> set (fst (ml_rows df ! fst (?E ! a)))"
      by blast
    have "cell_of (inner mm) a col = l" using cell [OF a] l(1) by (simp add: mm)
    with l(2) e(1) o show ?thesis by (auto split: if_splits)
  qed
  show "\<exists>a < length (vals (inner mm)). original_index mm ! a = i \<and> cell_of (inner mm) a col = Val k"
    if i: "i < length (ml_rows df)" and k: "Val k \<in> set (fst (ml_rows df ! i))"
  proof -
    from k have ne: "fst (ml_rows df ! i) \<noteq> []" by auto
    have "(i, Val k # snd (ml_rows df ! i)) \<in> set ?E"
      unfolding exploded_mem using i k ne by simp
    then obtain a where a: "a < length ?E" "?E ! a = (i, Val k # snd (ml_rows df ! i))"
      unfolding in_set_conv_nth by blast
    have "cell_of (inner mm) a col = Val k" using cell [OF a(1)] a(2) by (simp add: mm)
    moreover have "original_index mm ! a = i" using a by (simp add: oi)
    moreover have "a < length (vals (inner mm))" using a(1) by (simp add: mm v)
    ultimately show ?thesis by blast
  qed
qed

lemma ml_init_fields:
  assumes "MatcherMultilabel_init rt b df cols col seed = Inr mm"
  shows "multilabel_col mm = col \<and> ml_size mm = length (ml_rows df)
       \<and> multilabel_set mm = map (\<lambda>(labels, cells). remdups labels) (ml_rows df)
       \<and> Matcher_init rt b (snd (explode col df)) cols seed None = Inr (inner mm)"
  using assms by (auto simp: MatcherMultilabel_init_def split: sum.splits)

lemma map_to_original_all:
  "map_to_original mm False ps = Inr res \<Longrightarrow>
     emitted res = map (\<lambda>(a, b). (original_index mm ! a, original_index mm ! b)) (emitted ps)"
proof (induction ps arbitrary: res)
  case Nil
  then show ?case by simp
next
  case (Cons p ps)
  obtain key pairs where p: "p = (key, pairs)" by (cases p)
  from Cons.prems p obtain d' where d: "map_to_original mm False ps = Inr d'"
    and r: "res = (key, map (\<lambda>(a, b). (original_index mm ! a, original_index mm ! b)) pairs) # d'"
    by (auto split: if_splits sum.splits)
  from Cons.IH [OF d] r p show ?case by simp
qed

lemma map_to_original_disjoint:
  "map_to_original mm True ps = Inr res \<Longrightarrow>
     list_all (\<lambda>(a, b). labels_disjoint (multilabel_set mm ! a) (multilabel_set mm ! b)) (emitted res)"
proof (induction ps arbitrary: res)
  case Nil
  then show ?case by simp
next
  case (Cons p ps)
  obtain key pairs where p: "p = (key, pairs)" by (cases p)
  from Cons.prems p obtain d' where d: "map_to_original mm True ps = Inr d'"
    and r: "res = (key, filter (\<lambda>(a, b). labels_disjoint (multilabel_set mm ! a) (multilabel_set mm ! b))
                        (map (\<lambda>(a, b). (original_index mm ! a, original_index mm ! b)) pairs)) # d'"
    by (auto split: if_splits sum.splits)
  from Cons.IH [OF d] r show ?case by (auto simp: list_all_iff)
qed

lemma share_label_iff: "share_label a b \<longleftrightarrow> (\<exists>k. Val k \<in> set a \<and> Val k \<in> set b)"
  by (auto simp: share_label_def list_ex_iff not_isna_iff)

lemma share_label_disjoint:
  "list_all (\<lambda>l. \<not> isna l) a \<Longrightarrow> share_label a b \<longleftrightarrow> \<not> labels_disjoint a b"
  by (auto simp: share_label_def labels_disjoint_def list_ex_iff list_all_iff)

lemma combinations2_mem:
  "sorted_wrt (<) xs \<Longrightarrow> (i, j) \<in> set (combinations2 xs) \<Longrightarrow> i < j \<and> i \<in> set xs \<and> j \<in> set xs"
  by (induction xs) auto

lemma overlapping_pairs:
  assumes it: "iter_ok rt"
    and init: "MatcherMultilabel_init rt b df cols col seed = Inr mm"
    and body: "ml_pairs_body rt mm (Name col) [] False = Inr pairs"
    and ij: "i \<noteq> j" "i < ml_size mm" "j < ml_size mm"
  shows "list_ex (\<lambda>(a, b). (a = i \<and> b = j) \<or> (a = j \<and> b = i)) (concat (map snd pairs))
           \<longleftrightarrow> share_label (multilabel_set mm ! i) (multilabel_set mm ! j)"
proof -
  let ?m = "inner mm"
  let ?oi = "original_index mm"
  from ml_init_fields [OF init] have n: "ml_size mm = length (ml_rows df)"
    and ms: "multilabel_set mm = map (\<lambda>(labels, cells). remdups labels) (ml_rows df)"
    and m: "Matcher_init rt b (snd (explode col df)) cols seed None = Inr ?m"
    by simp_all
  have lab: "set (multilabel_set mm ! x) = set (fst (ml_rows df ! x))" if "x < length (ml_rows df)" for x
    using that by (simp add: ms case_prod_unfold)
  from body obtain ps0 where g: "get_all_pairs rt ?m (Name col) (Cols []) = Inr ps0"
    and mo: "map_to_original mm False ps0 = Inr pairs"
    by (auto simp: ml_pairs_body_def split: sum.splits)
  from get_all_pairs_name [OF g] obtain mapper pairs0 where
    cm: "col \<in> set (columns ?m)" and mp: "map_of (reverse ?m) col = Some mapper"
    and ag: "all_groups rt ?m [] [] mapper = Inr pairs0"
    and p0: "ps0 = map (\<lambda>(k, v). (KVal k, v)) pairs0"
    by blast
  from Matcher_init_fields [OF m] cm have c: "col \<in> set cols" by simp
  from init_index [OF m c] mp have
    keys: "\<And>k. k \<in> set (map fst mapper) \<longleftrightarrow> holders ?m col k \<noteq> []"
    and grp: "\<And>k g. (k, g) \<in> set mapper \<Longrightarrow> g = holders ?m col k"
    by (auto simp: oversized_def)
  have em: "set (concat (map snd pairs)) = (\<lambda>(a, b). (?oi ! a, ?oi ! b)) ` set (emitted pairs0)"
  proof -
    have "emitted pairs = map (\<lambda>(a, b). (?oi ! a, ?oi ! b)) (emitted pairs0)"
      using map_to_original_all [OF mo] by (simp add: p0)
    then have "set (emitted pairs) = (\<lambda>(a, b). (?oi ! a, ?oi ! b)) ` set (emitted pairs0)"
      by simp
    then show ?thesis by (simp only: emitted_def [of pairs])
  qed
  have iter: "\<And>xs. set (set_iter rt xs) = set xs" "\<And>xs. distinct (set_iter rt xs)"
    using it by (auto simp: iter_ok_def)
  have sound: "share_label (multilabel_set mm ! (?oi ! a)) (multilabel_set mm ! (?oi ! b))"
    if ab: "(a, b) \<in> set (emitted pairs0)" for a b
  proof -
    from all_groups_sound [OF it ag ab] obtain k g where
      kg: "(k, g) \<in> set mapper" and bf: "before (set_iter rt g) a b"
      by auto
    from before_in [OF bf] iter(1) grp [OF kg] have "a \<in> set (holders ?m col k)" "b \<in> set (holders ?m col k)"
      by auto
    then have a: "a < length (vals ?m)" "cell_of ?m a col = Val k"
      and b: "b < length (vals ?m)" "cell_of ?m b col = Val k"
      by (simp_all add: holders_cell)
    from ml_init_cell(2) [OF init c a(1)] a(2) have a': "?oi ! a < length (ml_rows df)"
      "Val k \<in> set (fst (ml_rows df ! (?oi ! a)))" by auto
    from ml_init_cell(2) [OF init c b(1)] b(2) have b': "?oi ! b < length (ml_rows df)"
      "Val k \<in> set (fst (ml_rows df ! (?oi ! b)))" by auto
    from a' b' show ?thesis unfolding share_label_iff by (auto simp: lab)
  qed
  show ?thesis
  proof
    assume "list_ex (\<lambda>(a, b). (a = i \<and> b = j) \<or> (a = j \<and> b = i)) (concat (map snd pairs))"
    then have "(i, j) \<in> set (concat (map snd pairs)) \<or> (j, i) \<in> set (concat (map snd pairs))"
      by (auto simp: list_ex_iff)
    then show "share_label (multilabel_set mm ! i) (multilabel_set mm ! j)"
    proof
      assume "(i, j) \<in> set (concat (map snd pairs))"
      then obtain a b where "(a, b) \<in> set (emitted pairs0)" "i = ?oi ! a" "j = ?oi ! b"
        unfolding em by auto
      with sound show ?thesis by simp
    next
      assume "(j, i) \<in> set (concat (map snd pairs))"
      then obtain a b where "(a, b) \<in> set (emitted pairs0)" "j = ?oi ! a" "i = ?oi ! b"
        unfolding em by auto
      with sound have "share_label (multilabel_set mm ! j) (multilabel_set mm ! i)" by simp
      then show ?thesis unfolding share_label_iff by blast
    qed
  next
    assume "share_label (multilabel_set mm ! i) (multilabel_set mm ! j)"
    then obtain k where k: "Val k \<in> set (fst (ml_rows df ! i))" "Val k \<in> set (fst (ml_rows df ! j))"
      unfolding share_label_iff using ij n by (auto simp: lab)
    from ml_init_cell(3) [OF init c _ k(1)] ij n obtain a where
      a: "a < length (vals ?m)" "?oi ! a = i" "cell_of ?m a col = Val k" by auto
    from ml_init_cell(3) [OF init c _ k(2)] ij n obtain b where
      b: "b < length (vals ?m)" "?oi ! b = j" "cell_of ?m b col = Val k" by auto
    from a b ij(1) have ne: "a \<noteq> b" by auto
    from a b have h: "a \<in> set (holders ?m col k)" "b \<in> set (holders ?m col k)"
      by (simp_all add: holders_cell)
    then have "holders ?m col k \<noteq> []" by auto
    with keys obtain g where kg: "(k, g) \<in> set mapper" by fastforce
    from grp [OF kg] h iter(1) have "a \<in> set (set_iter rt g)" "b \<in> set (set_iter rt g)" by simp_all
    from before_total [OF this ne] have "before (set_iter rt g) a b \<or> before (set_iter rt g) b a" .
    then have "(a, b) \<in> set (emitted pairs0) \<or> (b, a) \<in> set (emitted pairs0)"
      using all_groups_complete [OF it ag kg] by auto
    then have "(i, j) \<in> set (concat (map snd pairs)) \<or> (j, i) \<in> set (concat (map snd pairs))"
      unfolding em using a(2) b(2) by force
    then show "list_ex (\<lambda>(a, b). (a = i \<and> b = j) \<or> (a = j \<and> b = i)) (concat (map snd pairs))"
      by (auto simp: list_ex_iff)
  qed
qed

lemma only_diffby_multi_result:
  assumes it: "iter_ok rt"
    and init: "MatcherMultilabel_init rt b df cols col seed = Inr mm"
    and r: "only_diffby_multi rt mm = Inr res"
  shows "res = [(KNone, filter (\<lambda>(i, j). \<not> share_label (multilabel_set mm ! i) (multilabel_set mm ! j))
                          (combinations2 [0 ..< ml_size mm]))]"
proof -
  from ml_init_fields [OF init] have c: "multilabel_col mm = col" by simp
  from r c obtain pairs where body: "ml_pairs_body rt mm (Name col) [] False = Inr pairs"
    and res: "res = [(KNone,
                filter (\<lambda>(i, j). \<not> list_ex (\<lambda>(a, b). (a = i \<and> b = j) \<or> (a = j \<and> b = i))
                                    (concat (map snd pairs)))
                  (combinations2 [0 ..< ml_size mm]))]"
    by (auto simp: only_diffby_multi_def split: sum.splits)
  have "filter (\<lambda>(i, j). \<not> list_ex (\<lambda>(a, b). (a = i \<and> b = j) \<or> (a = j \<and> b = i))
                                    (concat (map snd pairs)))
                  (combinations2 [0 ..< ml_size mm])
      = filter (\<lambda>(i, j). \<not> share_label (multilabel_set mm ! i) (multilabel_set mm ! j))
                          (combinations2 [0 ..< ml_size mm])"
  proof (rule filter_cong [OF refl])
    fix x assume x: "x \<in> set (combinations2 [0 ..< ml_size mm])"
    obtain i j where xe: "x = (i, j)" by (cases x)
    have "sorted_wrt (<) [0 ..< ml_size mm]" by simp
    from combinations2_mem [OF this] x xe have "i < j" "i < ml_size mm" "j < ml_size mm" by auto
    with overlapping_pairs [OF it init body, of i j] xe
    show "(case x of (i, j) \<Rightarrow> \<not> list_ex (\<lambda>(a, b). (a = i \<and> b = j) \<or> (a = j \<and> b = i))
                                    (concat (map snd pairs)))
        = (case x of (i, j) \<Rightarrow> \<not> share_label (multilabel_set mm ! i) (multilabel_set mm ! j))"
      by simp
  qed
  with res show ?thesis by simp
qed

lemmas ml_defs = MatcherMultilabel_init_def explode_def ml_get_all_pairs_def only_diffby_multi_def
  ml_pairs_body_def labels_disjoint_def enumerate_eq_zip

text \<open>
  What \<open>MatcherMultilabel.get_all_pairs\<close> returns when the multilabel column \<open>col\<close>
  is among the diffby columns. When \<open>col\<close> is the only diffby column and sameby is
  empty, the result is the one list, under the key \<open>None\<close>, of the pairs \<open>(i, j)\<close> of
  original rows with \<open>i < j\<close> whose label sets share no label that is not null. In
  every other call each emitted pair of original rows has disjoint label sets. When no
  label of the frame is null, the emitted pairs have disjoint label sets in both cases.
\<close>

lemma multilabel_diffby:
  assumes it: "iter_ok rt"
    and init: "MatcherMultilabel_init rt b df cols col seed = Inr mm"
    and c: "col \<in> set diffby"
    and r: "ml_get_all_pairs rt mm sameby diffby = Inr res"
  shows "(if filter (\<lambda>c. col \<noteq> c) diffby = [] \<and> falsy sameby
          then res = [(KNone, filter (\<lambda>(i, j). \<not> share_label (multilabel_set mm ! i) (multilabel_set mm ! j))
                                (combinations2 [0 ..< ml_size mm]))]
          else list_all (\<lambda>(a, b). labels_disjoint (multilabel_set mm ! a) (multilabel_set mm ! b))
                 (emitted res))
       \<and> (no_null_labels mm
           \<longrightarrow> list_all (\<lambda>(a, b). labels_disjoint (multilabel_set mm ! a) (multilabel_set mm ! b))
                 (emitted res))"
proof -
  let ?only = "filter (\<lambda>c. col \<noteq> c) diffby = [] \<and> falsy sameby"
  let ?disjoint = "list_all (\<lambda>(a, b). labels_disjoint (multilabel_set mm ! a) (multilabel_set mm ! b))
                 (emitted res)"
  let ?complement = "[(KNone, filter (\<lambda>(i, j). \<not> share_label (multilabel_set mm ! i) (multilabel_set mm ! j))
                                (combinations2 [0 ..< ml_size mm]))]"
  from ml_init_fields [OF init] have col: "multilabel_col mm = col"
    and n: "ml_size mm = length (multilabel_set mm)" by simp_all
  have other: "?disjoint" if "\<not> ?only"
  proof -
    from r that c col have "ml_pairs_body rt mm sameby (filter (\<lambda>c. col \<noteq> c) diffby) True = Inr res"
      by (auto simp: ml_get_all_pairs_def)
    then obtain ps where "map_to_original mm True ps = Inr res"
      by (auto simp: ml_pairs_body_def split: sum.splits)
    then show ?thesis by (rule map_to_original_disjoint)
  qed
  have only: "res = ?complement" if "?only"
  proof -
    from r that c col have "only_diffby_multi rt mm = Inr res"
      by (auto simp: ml_get_all_pairs_def)
    from only_diffby_multi_result [OF it init this] show ?thesis .
  qed
  have "?disjoint" if nn: "no_null_labels mm"
  proof (cases ?only)
    case False
    with other show ?thesis by blast
  next
    case True
    have "labels_disjoint (multilabel_set mm ! i) (multilabel_set mm ! j)"
      if x: "(i, j) \<in> set (emitted res)" for i j
    proof -
      from x only [OF True] have m: "(i, j) \<in> set (combinations2 [0 ..< ml_size mm])"
        and s: "\<not> share_label (multilabel_set mm ! i) (multilabel_set mm ! j)"
        by simp_all
      have "sorted_wrt (<) [0 ..< ml_size mm]" by simp
      from combinations2_mem [OF this m] n have "multilabel_set mm ! i \<in> set (multilabel_set mm)"
        by simp
      with nn have "list_all (\<lambda>l. \<not> isna l) (multilabel_set mm ! i)"
        by (simp add: no_null_labels_def list_all_iff)
      from share_label_disjoint [OF this] s show ?thesis by simp
    qed
    then show ?thesis by (auto simp: list_all_iff)
  qed
  with other only show ?thesis by simp
qed

lemma multilabel_diffby_example:
  "\<exists>mm res. iter_ok ascending
     \<and> MatcherMultilabel_init ascending 2 scenario_E [''c''] ''c'' 0 = Inr mm
     \<and> ''c'' \<in> set [''c'']
     \<and> ml_get_all_pairs ascending mm (Cols []) [''c''] = Inr res
     \<and> no_null_labels mm
     \<and> res = [(KNone, [(0, 2), (1, 2)])]
     \<and> res = [(KNone, filter (\<lambda>(i, j). \<not> share_label (multilabel_set mm ! i) (multilabel_set mm ! j))
                          (combinations2 [0 ..< ml_size mm]))]
     \<and> list_all (\<lambda>(a, b). labels_disjoint (multilabel_set mm ! a) (multilabel_set mm ! b)) (emitted res)"
proof -
  have "\<exists>mm. MatcherMultilabel_init ascending 2 scenario_E [''c''] ''c'' 0 = Inr mm
     \<and> ml_get_all_pairs ascending mm (Cols []) [''c''] = Inr [(KNone, [(0, 2), (1, 2)])]
     \<and> no_null_labels mm"
    by (simp add: ml_defs scenario_E_def init_defs pairs_defs ascending_def no_null_labels_def)
  then obtain mm where init: "MatcherMultilabel_init ascending 2 scenario_E [''c''] ''c'' 0 = Inr mm"
    and r: "ml_get_all_pairs ascending mm (Cols []) [''c''] = Inr [(KNone, [(0, 2), (1, 2)])]"
    and nn: "no_null_labels mm"
    by blast
  have it: "iter_ok ascending" by (simp add: iter_ok_def ascending_def)
  have c: "''c'' \<in> set [''c'']" by simp
  have f: "filter (\<lambda>c. ''c'' \<noteq> c) [''c''] = [] \<and> falsy (Cols [])" by simp
  note t = multilabel_diffby [OF it init c r]
  from t [THEN conjunct1] f
  have e: "[(KNone, [(0, 2), (1, 2)])]
          = [(KNone, filter (\<lambda>(i, j). \<not> share_label (multilabel_set mm ! i) (multilabel_set mm ! j))
                          (combinations2 [0 ..< ml_size mm]))]"
    by simp
  from t [THEN conjunct2] nn
  have d: "list_all (\<lambda>(a, b). labels_disjoint (multilabel_set mm ! a) (multilabel_set mm ! b))
           (emitted [(KNone, [(0, 2), (1, 2)])])"
    by simp
  from it init c r nn e d show ?thesis by blast
qed

text \<open>
  C8. The claim is that every emitted pair has disjoint label sets when the multilabel
  column is among the diffby columns. On \<open>none_labels\<close> both rows have the label set
  {None}. With diffby ["c", "p"] the pair \<open>(0, 1)\<close> is mapped and then discarded by
  \<open>len(a & b) == 0\<close>. With diffby ["c"] alone \<open>_only_diffby_multi\<close> takes the
  complement of the pairs the inner matcher finds for sameby "c"; the reverse index
  leaves the rows with a null label out, so the inner matcher finds none, and the pair
  \<open>(0, 1)\<close> is emitted.
\<close>

theorem null_labels_pair_emitted:
  "\<exists>mm. MatcherMultilabel_init ascending 2 none_labels [''c'', ''p''] ''c'' 0 = Inr mm
     \<and> multilabel_set mm = [[PyNone], [PyNone]]
     \<and> \<not> labels_disjoint (multilabel_set mm ! 0) (multilabel_set mm ! 1)
     \<and> ml_get_all_pairs ascending mm (Cols []) [''c''] = Inr [(KNone, [(0, 1)])]
     \<and> ml_get_all_pairs ascending mm (Cols []) [''c'', ''p''] = Inr [(KNone, [])]"
  by (simp add: ml_defs none_labels_def init_defs pairs_defs ascending_def
      only_diffby_all_def sorted_by_order_def get_full_pairs_def np_unique_def)

subsection \<open>Symmetric pairs under sameby any\<close>

text \<open>
  C3 fails in the branch of \<open>get_all_pairs\<close> for a sameby with the key "any" alone, which
  collects the first pair of every key of every column in the order of the set
  iteration. On \<open>twelve_rows\<close> the set {1, 8} of c1 is iterated as 8, 1 and gives the
  pair \<open>(8, 1)\<close>, the set of c2 is iterated in increasing order and gives \<open>(1, 8)\<close>
  first: the list under the key \<open>None\<close> holds both \<open>(1, 8)\<close> and \<open>(8, 1)\<close>.
\<close>

theorem sameby_any_symmetric_pairs:
  "\<exists>m. Matcher_init slot_order 2 twelve_rows [''c1'', ''c2''] 0 None = Inr m
     \<and> set_iter slot_order [1, 8] = [8, 1]
     \<and> get_all_pairs slot_order m (Dict None (Some [''c1'', ''c2''])) (Cols [])
         = Inr [(KNone, [(1, 8), (8, 1)])]"
  by (simp add: init_defs twelve_rows_def slot_order_def pairs_defs less_eq_prod_def less_prod_def)

end
